theory Spec2Isabelle
  imports Main "HOL-Library.Word" "HOL-Library.Monad_Syntax"
begin

unbundle bit_operations_syntax

section \<open>IEEE 754 binary64 values\<close>

text \<open>
  The C++ type \<^verbatim>\<open>double\<close> is modelled by its 64-bit pattern: bit 63 is the sign, the
  low 63 bits are the magnitude (11 exponent bits, 52 fraction bits). Magnitudes below
  \<open>inf_mag\<close> are the finite values in increasing order, \<open>inf_mag\<close> is infinity, larger
  magnitudes are NaNs. Arithmetic is exact arithmetic on integers followed by rounding
  to nearest, ties to even, which is what the processor does in its default mode.
\<close>

type_synonym double = "64 word"
type_synonym uint32_t = "32 word"

definition inf_mag :: nat where
  "inf_mag = 2047 * 2 ^ 52"

definition sign_of :: "double \<Rightarrow> bool" where
  "sign_of d = (2 ^ 63 \<le> unat d)"

definition mag_of :: "double \<Rightarrow> nat" where
  "mag_of d = unat d mod 2 ^ 63"

definition mk_double :: "bool \<Rightarrow> nat \<Rightarrow> double" where
  "mk_double s m = word_of_nat ((if s then 2 ^ 63 else 0) + m)"

definition isnan :: "double \<Rightarrow> bool" where
  "isnan d = (inf_mag < mag_of d)"

definition isinf :: "double \<Rightarrow> bool" where
  "isinf d = (mag_of d = inf_mag)"

definition isfinite :: "double \<Rightarrow> bool" where
  "isfinite d = (mag_of d < inf_mag)"

definition quiet_NaN :: double where
  "quiet_NaN = mk_double False (inf_mag + 2 ^ 51)"

definition infinity :: double where
  "infinity = mk_double False inf_mag"

text \<open>Sign and magnitude read as one integer order the non-NaN values; both zeroes are 0.\<close>

definition key_of :: "double \<Rightarrow> int" where
  "key_of d = (if sign_of d then - int (mag_of d) else int (mag_of d))"

text \<open>A finite value is \<open>\<plusminus> mant_of d * 2 ^ expo_of d\<close>.\<close>

definition mant_of :: "double \<Rightarrow> nat" where
  "mant_of d = (if mag_of d < 2 ^ 52 then mag_of d else 2 ^ 52 + mag_of d mod 2 ^ 52)"

definition expo_of :: "double \<Rightarrow> int" where
  "expo_of d = int (max 1 (mag_of d div 2 ^ 52)) - 1075"

definition sval_of :: "double \<Rightarrow> int" where
  "sval_of d = (if sign_of d then - int (mant_of d) else int (mant_of d))"

text \<open>The built-in comparisons: every ordered comparison with a NaN is false.\<close>

definition d_lt :: "double \<Rightarrow> double \<Rightarrow> bool" where
  "d_lt a b = (\<not> isnan a \<and> \<not> isnan b \<and> key_of a < key_of b)"

definition d_le :: "double \<Rightarrow> double \<Rightarrow> bool" where
  "d_le a b = (\<not> isnan a \<and> \<not> isnan b \<and> key_of a \<le> key_of b)"

definition d_eq :: "double \<Rightarrow> double \<Rightarrow> bool" where
  "d_eq a b = (\<not> isnan a \<and> \<not> isnan b \<and> key_of a = key_of b)"

definition d_gt :: "double \<Rightarrow> double \<Rightarrow> bool" where
  "d_gt a b = d_lt b a"

definition d_ge :: "double \<Rightarrow> double \<Rightarrow> bool" where
  "d_ge a b = d_le b a"

subsection \<open>Rounding a positive rational \<open>p / q\<close> to the nearest double\<close>

function log2floor :: "nat \<Rightarrow> nat" where
  "log2floor n =
     (if n < 2 then 0
      else if n < 2 ^ 64 then log2floor (n div 2) + 1
      else log2floor (n div 2 ^ 64) + 64)"
  by pat_completeness auto
termination
  by (relation "measure id") (auto intro: div_less_dividend)

declare log2floor.simps [simp del]

definition ilog2q :: "nat \<Rightarrow> nat \<Rightarrow> int" where
  "ilog2q p q =
     (let d = int (log2floor p) - int (log2floor q)
      in if (if 0 \<le> d then q * 2 ^ nat d \<le> p else q \<le> p * 2 ^ nat (- d)) then d else d - 1)"

definition round_half_even :: "nat \<Rightarrow> nat \<Rightarrow> nat" where
  "round_half_even n d =
     (let m = n div d; r = n mod d
      in if 2 * r < d then m else if d < 2 * r then m + 1 else if even m then m else m + 1)"

definition scaled_round :: "nat \<Rightarrow> nat \<Rightarrow> int \<Rightarrow> nat" where
  "scaled_round p q s =
     (if 0 \<le> s then round_half_even p (q * 2 ^ nat s) else round_half_even (p * 2 ^ nat (- s)) q)"

definition round_mag_at :: "nat \<Rightarrow> nat \<Rightarrow> int \<Rightarrow> nat" where
  "round_mag_at p q e = min inf_mag (nat (e + 1022) * 2 ^ 52 + scaled_round p q (e - 52))"

definition round_mag :: "nat \<Rightarrow> nat \<Rightarrow> nat" where
  "round_mag p q = round_mag_at p q (max (ilog2q p q) (- 1022))"

definition round_double :: "bool \<Rightarrow> nat \<Rightarrow> nat \<Rightarrow> double" where
  "round_double s p q = mk_double s (if p = 0 then 0 else round_mag p q)"

definition round_scaled :: "bool \<Rightarrow> nat \<Rightarrow> int \<Rightarrow> double" where
  "round_scaled s m e =
     (if 0 \<le> e then round_double s (m * 2 ^ nat e) 1 else round_double s m (2 ^ nat (- e)))"

subsection \<open>Arithmetic\<close>

definition d_neg :: "double \<Rightarrow> double" where
  "d_neg d = mk_double (\<not> sign_of d) (mag_of d)"

definition add_finite :: "double \<Rightarrow> double \<Rightarrow> int \<Rightarrow> int" where
  "add_finite a b e = sval_of a * 2 ^ nat (expo_of a - e) + sval_of b * 2 ^ nat (expo_of b - e)"

definition add_round :: "bool \<Rightarrow> int \<Rightarrow> int \<Rightarrow> double" where
  "add_round z t e = (if t = 0 then mk_double z 0 else round_scaled (t < 0) (nat \<bar>t\<bar>) e)"

definition d_add :: "double \<Rightarrow> double \<Rightarrow> double" where
  "d_add a b =
     (if isnan a \<or> isnan b then quiet_NaN
      else if isinf a then (if isinf b \<and> sign_of a \<noteq> sign_of b then quiet_NaN else a)
      else if isinf b then b
      else if mag_of b = 0 then (if mag_of a = 0 then mk_double (sign_of a \<and> sign_of b) 0 else a)
      else if mag_of a = 0 then b
      else add_round (sign_of a \<and> sign_of b)
             (add_finite a b (min (expo_of a) (expo_of b))) (min (expo_of a) (expo_of b)))"

definition d_sub :: "double \<Rightarrow> double \<Rightarrow> double" where
  "d_sub a b = d_add a (d_neg b)"

definition d_mul :: "double \<Rightarrow> double \<Rightarrow> double" where
  "d_mul a b =
     (if isnan a \<or> isnan b then quiet_NaN
      else if isinf a \<or> isinf b then
        (if mag_of a = 0 \<or> mag_of b = 0 then quiet_NaN
         else mk_double (sign_of a \<noteq> sign_of b) inf_mag)
      else round_scaled (sign_of a \<noteq> sign_of b) (mant_of a * mant_of b) (expo_of a + expo_of b))"

definition d_div :: "double \<Rightarrow> double \<Rightarrow> double" where
  "d_div a b =
     (if isnan a \<or> isnan b then quiet_NaN
      else if isinf a then
        (if isinf b then quiet_NaN else mk_double (sign_of a \<noteq> sign_of b) inf_mag)
      else if isinf b then mk_double (sign_of a \<noteq> sign_of b) 0
      else if mag_of b = 0 then
        (if mag_of a = 0 then quiet_NaN else mk_double (sign_of a \<noteq> sign_of b) inf_mag)
      else if expo_of b \<le> expo_of a
        then round_double (sign_of a \<noteq> sign_of b)
               (mant_of a * 2 ^ nat (expo_of a - expo_of b)) (mant_of b)
        else round_double (sign_of a \<noteq> sign_of b)
               (mant_of a) (mant_of b * 2 ^ nat (expo_of b - expo_of a)))"

text \<open>\<^verbatim>\<open>std::nextafter(x, y)\<close>: the neighbour of \<open>x\<close> in the direction of \<open>y\<close>.\<close>

definition nextafter :: "double \<Rightarrow> double \<Rightarrow> double" where
  "nextafter x y =
     (if isnan x \<or> isnan y then quiet_NaN
      else if d_eq x y then y
      else if mag_of x = 0 then mk_double (sign_of y) 1
      else if d_lt x y = sign_of x then mk_double (sign_of x) (mag_of x - 1)
      else mk_double (sign_of x) (mag_of x + 1))"

subsection \<open>Conversions\<close>

definition double_of_uint32 :: "uint32_t \<Rightarrow> double" where
  "double_of_uint32 n = round_double False (unat n) 1"

definition double_of_bool :: "bool \<Rightarrow> double" where
  "double_of_bool b = round_double False (if b then 1 else 0) 1"

text \<open>The value with its fractional part discarded (rounding towards zero).\<close>

definition trunc_of :: "double \<Rightarrow> int" where
  "trunc_of d =
     (if 0 \<le> expo_of d then sval_of d * 2 ^ nat (expo_of d)
      else if sign_of d then - int (mant_of d div 2 ^ nat (- expo_of d))
      else int (mant_of d div 2 ^ nat (- expo_of d)))"

text \<open>
  The implicit conversion of a \<^verbatim>\<open>double\<close> to \<^verbatim>\<open>uint32_t\<close> truncates; the C++
  standard leaves the behaviour undefined when the truncated value is not a
  \<^verbatim>\<open>uint32_t\<close>. \<open>None\<close> stands for "no defined result".
\<close>

definition double_to_uint32 :: "double \<Rightarrow> uint32_t option" where
  "double_to_uint32 d =
     (if isfinite d \<and> 0 \<le> trunc_of d \<and> trunc_of d < 2 ^ 32
      then Some (word_of_int (trunc_of d)) else None)"

text \<open>Decimal literals of the source: the decimal fraction \<open>p / q\<close>, rounded.\<close>

definition lit :: "nat \<Rightarrow> nat \<Rightarrow> double" where
  "lit p q = round_double False p q"

lemmas double_defs = inf_mag_def sign_of_def mag_of_def mk_double_def isnan_def isinf_def
  isfinite_def quiet_NaN_def infinity_def key_of_def mant_of_def expo_of_def d_lt_def d_le_def
  d_eq_def d_gt_def d_ge_def log2floor.simps ilog2q_def round_half_even_def scaled_round_def
  round_mag_at_def round_mag_def round_double_def round_scaled_def sval_of_def d_neg_def
  add_finite_def add_round_def d_add_def d_sub_def d_mul_def d_div_def nextafter_def
  double_of_uint32_def double_of_bool_def trunc_of_def double_to_uint32_def lit_def Let_def

section \<open>Values\<close>

text \<open>
  \<^verbatim>\<open>RangeType\<close> holds three doubles. \<^verbatim>\<open>FunctionType\<close> holds three shared pointers
  (context, expression, argument list), modelled by the addresses they hold. A
  \<^verbatim>\<open>Value\<close> is a \<^verbatim>\<open>boost::variant\<close> over blank, bool, double, string, vector, range and
  function, in the order of \<^verbatim>\<open>Value::ValueType\<close>. A value is modelled by its content:
  a moved or cloned value is the same value.
\<close>

record RangeType =
  begin_val :: double
  step_val :: double
  end_val :: double

record FunctionType =
  ctx :: nat
  expr :: nat
  args :: nat

datatype ValueType = UNDEFINED | BOOL | NUMBER | STRING | VECTOR | RANGE | FUNCTION

datatype Value =
    VUndefined
  | VBool bool
  | VNumber double
  | VString string
  | VVector "Value list"
  | VRange RangeType
  | VFunction FunctionType

fun type :: "Value \<Rightarrow> ValueType" where
  "type VUndefined = UNDEFINED"
| "type (VBool _) = BOOL"
| "type (VNumber _) = NUMBER"
| "type (VString _) = STRING"
| "type (VVector _) = VECTOR"
| "type (VRange _) = RANGE"
| "type (VFunction _) = FUNCTION"

text \<open>\<^verbatim>\<open>Value::toDouble\<close>, \<^verbatim>\<open>Value::toVector\<close>: the content, or 0.0 / the empty vector.\<close>

fun toDouble :: "Value \<Rightarrow> double" where
  "toDouble (VNumber d) = d"
| "toDouble _ = 0"

fun toVector :: "Value \<Rightarrow> Value list" where
  "toVector (VVector v) = v"
| "toVector _ = []"

section \<open>Addition and subtraction\<close>

text \<open>
  \<^verbatim>\<open>plus_visitor\<close> and \<^verbatim>\<open>minus_visitor\<close>: the overload for two doubles, the overload
  for two vectors (a loop over the indices below both sizes, adding elementwise with
  \<^verbatim>\<open>Value::operator+\<close> itself), and the template for every other pair of types.
\<close>

fun Value_plus :: "Value \<Rightarrow> Value \<Rightarrow> Value"
  and plus_loop :: "Value list \<Rightarrow> Value list \<Rightarrow> Value list" where
  "Value_plus (VNumber op1) (VNumber op2) = VNumber (d_add op1 op2)"
| "Value_plus (VVector op1) (VVector op2) = VVector (plus_loop op1 op2)"
| "Value_plus _ _ = VUndefined"
| "plus_loop (x # xs) (y # ys) = Value_plus x y # plus_loop xs ys"
| "plus_loop _ _ = []"

fun Value_minus :: "Value \<Rightarrow> Value \<Rightarrow> Value"
  and minus_loop :: "Value list \<Rightarrow> Value list \<Rightarrow> Value list" where
  "Value_minus (VNumber op1) (VNumber op2) = VNumber (d_sub op1 op2)"
| "Value_minus (VVector op1) (VVector op2) = VVector (minus_loop op1 op2)"
| "Value_minus _ _ = VUndefined"
| "minus_loop (x # xs) (y # ys) = Value_minus x y # minus_loop xs ys"
| "minus_loop _ _ = []"

lemma plus_loop_map2: "plus_loop xs ys = map2 Value_plus xs ys"
proof (induction xs arbitrary: ys)
  case Nil
  show ?case by simp
next
  case (Cons x xs)
  show ?case by (cases ys) (simp_all add: Cons.IH)
qed

lemma minus_loop_map2: "minus_loop xs ys = map2 Value_minus xs ys"
proof (induction xs arbitrary: ys)
  case Nil
  show ?case by simp
next
  case (Cons x xs)
  show ?case by (cases ys) (simp_all add: Cons.IH)
qed

lemma Value_plus_other:
  "(type a \<noteq> NUMBER \<or> type b \<noteq> NUMBER) \<Longrightarrow> (type a \<noteq> VECTOR \<or> type b \<noteq> VECTOR)
   \<Longrightarrow> Value_plus a b = VUndefined"
  by (cases a; cases b) simp_all

lemma Value_minus_other:
  "(type a \<noteq> NUMBER \<or> type b \<noteq> NUMBER) \<Longrightarrow> (type a \<noteq> VECTOR \<or> type b \<noteq> VECTOR)
   \<Longrightarrow> Value_minus a b = VUndefined"
  by (cases a; cases b) simp_all

text \<open>
  C6. The sum (difference) of two Numbers is the Number holding the double sum
  (difference); of two Vectors it is the Vector of the elementwise sums (differences) of
  the first \<open>min (length a) (length b)\<close> elements; every other pair of variants gives
  Undefined.
\<close>

theorem C6_plus_minus:
  "Value_plus (VNumber x) (VNumber y) = VNumber (d_add x y)
   \<and> Value_minus (VNumber x) (VNumber y) = VNumber (d_sub x y)
   \<and> Value_plus (VVector xs) (VVector ys) = VVector (map2 Value_plus xs ys)
   \<and> Value_minus (VVector xs) (VVector ys) = VVector (map2 Value_minus xs ys)
   \<and> length (map2 Value_plus xs ys) = min (length xs) (length ys)
   \<and> length (map2 Value_minus xs ys) = min (length xs) (length ys)
   \<and> (\<forall>i < min (length xs) (length ys).
        map2 Value_plus xs ys ! i = Value_plus (xs ! i) (ys ! i)
        \<and> map2 Value_minus xs ys ! i = Value_minus (xs ! i) (ys ! i))
   \<and> (\<forall>a b. \<not> (type a = NUMBER \<and> type b = NUMBER) \<and> \<not> (type a = VECTOR \<and> type b = VECTOR)
        \<longrightarrow> Value_plus a b = VUndefined \<and> Value_minus a b = VUndefined)"
  by (simp add: plus_loop_map2 minus_loop_map2 Value_plus_other Value_minus_other)

theorem C6_plus_minus_witness:
  "Value_plus (VVector [VNumber (lit 1 1), VString ''a'', VNumber (lit 3 1)])
              (VVector [VNumber (lit 2 1), VNumber (lit 2 1)])
     = VVector [VNumber (lit 3 1), VUndefined]
   \<and> Value_minus (VBool True) (VNumber (lit 1 1)) = VUndefined
   \<and> Value_plus (VString ''a'') (VString ''b'') = VUndefined"
proof -
  have sum: "d_add (lit 1 1) (lit 2 1) = lit 3 1"
    by (simp add: double_defs)
  have "Value_plus (VVector [VNumber (lit 1 1), VString ''a'', VNumber (lit 3 1)])
              (VVector [VNumber (lit 2 1), VNumber (lit 2 1)])
        = VVector (map2 Value_plus [VNumber (lit 1 1), VString ''a'', VNumber (lit 3 1)]
              [VNumber (lit 2 1), VNumber (lit 2 1)])"
    using C6_plus_minus by blast
  moreover have "Value_minus (VBool True) (VNumber (lit 1 1)) = VUndefined"
    using C6_plus_minus by simp
  moreover have "Value_plus (VString ''a'') (VString ''b'') = VUndefined"
    using C6_plus_minus by simp
  ultimately show ?thesis
    using sum by simp
qed


section \<open>Ranges\<close>

definition UINT32_MAX :: uint32_t where
  "UINT32_MAX = 4294967295"

definition MAX_RANGE_STEPS :: uint32_t where
  "MAX_RANGE_STEPS = 10000"

text \<open>
  \<^verbatim>\<open>RangeType::numValues\<close>. The last statement converts the nudged quotient to
  \<^verbatim>\<open>uint32_t\<close> by an implicit conversion, which has no defined result when the
  truncated quotient does not fit.
\<close>

definition numValues :: "RangeType \<Rightarrow> uint32_t option" where
  "numValues r =
     (if isnan (begin_val r) \<or> isnan (end_val r) \<or> isnan (step_val r) then Some 0
      else if (if d_lt (step_val r) 0 then d_lt (begin_val r) (end_val r)
               else d_gt (begin_val r) (end_val r)) then Some 0
      else if d_eq (begin_val r) (end_val r) \<or> isinf (step_val r) then Some 1
      else if isinf (begin_val r) \<or> isinf (end_val r) \<or> d_eq (step_val r) 0
        then Some UINT32_MAX
      else
        (case double_to_uint32
                (nextafter (d_div (d_sub (end_val r) (begin_val r)) (step_val r))
                   (double_of_uint32 UINT32_MAX)) of
           None \<Rightarrow> None
         | Some num_steps \<Rightarrow>
             Some (if num_steps = UINT32_MAX then UINT32_MAX else num_steps + 1)))"

text \<open>
  The comparison operators of \<^verbatim>\<open>RangeType\<close> (value.h). \<open>same\<close> is the pointer test
  \<^verbatim>\<open>this == &other\<close> of \<^verbatim>\<open>operator==\<close>.
\<close>

definition RangeType_eq :: "bool \<Rightarrow> RangeType \<Rightarrow> RangeType \<Rightarrow> bool option" where
  "RangeType_eq same this other = do {
     n1 \<leftarrow> numValues this;
     n2 \<leftarrow> numValues other;
     Some (if n1 = 0 then n2 = 0
           else if n2 = 0 then False
           else same \<or> (d_eq (begin_val this) (begin_val other)
                        \<and> d_eq (step_val this) (step_val other) \<and> n1 = n2)) }"

definition RangeType_lt :: "RangeType \<Rightarrow> RangeType \<Rightarrow> bool option" where
  "RangeType_lt this other = do {
     n1 \<leftarrow> numValues this;
     n2 \<leftarrow> numValues other;
     Some (if n1 = 0 then 0 < n2
           else if n2 = 0 then False
           else d_lt (begin_val this) (begin_val other)
                \<or> (d_eq (begin_val this) (begin_val other)
                    \<and> (d_lt (step_val this) (step_val other)
                        \<or> (d_eq (step_val this) (step_val other) \<and> n1 < n2)))) }"

definition RangeType_le :: "RangeType \<Rightarrow> RangeType \<Rightarrow> bool option" where
  "RangeType_le this other = do {
     n1 \<leftarrow> numValues this;
     n2 \<leftarrow> numValues other;
     Some (if n1 = 0 then True
           else if n2 = 0 then False
           else d_lt (begin_val this) (begin_val other)
                \<or> (d_eq (begin_val this) (begin_val other)
                    \<and> (d_lt (step_val this) (step_val other)
                        \<or> (d_eq (step_val this) (step_val other) \<and> n1 \<le> n2)))) }"

definition RangeType_gt :: "RangeType \<Rightarrow> RangeType \<Rightarrow> bool option" where
  "RangeType_gt this other = do {
     n1 \<leftarrow> numValues this;
     n2 \<leftarrow> numValues other;
     Some (if n2 = 0 then 0 < n1
           else if n1 = 0 then False
           else d_gt (begin_val this) (begin_val other)
                \<or> (d_eq (begin_val this) (begin_val other)
                    \<and> (d_gt (step_val this) (step_val other)
                        \<or> (d_eq (step_val this) (step_val other) \<and> n2 < n1)))) }"

definition RangeType_ge :: "RangeType \<Rightarrow> RangeType \<Rightarrow> bool option" where
  "RangeType_ge this other = do {
     n1 \<leftarrow> numValues this;
     n2 \<leftarrow> numValues other;
     Some (if n2 = 0 then True
           else if n1 = 0 then False
           else d_gt (begin_val this) (begin_val other)
                \<or> (d_eq (begin_val this) (begin_val other)
                    \<and> (d_gt (step_val this) (step_val other)
                        \<or> (d_eq (step_val this) (step_val other) \<and> n2 \<le> n1)))) }"

section \<open>Comparison\<close>

text \<open>The comparison operators of \<^verbatim>\<open>FunctionType\<close> (value.h).\<close>

definition FunctionType_eq :: "FunctionType \<Rightarrow> FunctionType \<Rightarrow> bool" where
  "FunctionType_eq this other = False"

definition FunctionType_ne :: "FunctionType \<Rightarrow> FunctionType \<Rightarrow> bool" where
  "FunctionType_ne this other = (\<not> FunctionType_eq this other)"

definition FunctionType_lt :: "FunctionType \<Rightarrow> FunctionType \<Rightarrow> bool" where
  "FunctionType_lt this other = False"

definition FunctionType_gt :: "FunctionType \<Rightarrow> FunctionType \<Rightarrow> bool" where
  "FunctionType_gt this other = False"

definition FunctionType_le :: "FunctionType \<Rightarrow> FunctionType \<Rightarrow> bool" where
  "FunctionType_le this other = False"

definition FunctionType_ge :: "FunctionType \<Rightarrow> FunctionType \<Rightarrow> bool" where
  "FunctionType_ge this other = False"

text \<open>
  \<^verbatim>\<open>equals_visitor\<close> and the four visitors the macro \<^verbatim>\<open>DEFINE_VISITOR(name, op)\<close>
  generates differ in the operator only, so the operator is a parameter here.
\<close>

datatype cmp_op = OP_EQ | OP_LT | OP_GT | OP_LE | OP_GE

text \<open>\<^verbatim>\<open>boost::blank\<close>: all blanks are equal.\<close>

fun blank_cmp :: "cmp_op \<Rightarrow> bool" where
  "blank_cmp OP_EQ = True"
| "blank_cmp OP_LT = False"
| "blank_cmp OP_GT = False"
| "blank_cmp OP_LE = True"
| "blank_cmp OP_GE = True"

fun bool_cmp :: "cmp_op \<Rightarrow> bool \<Rightarrow> bool \<Rightarrow> bool" where
  "bool_cmp OP_EQ a b = (a = b)"
| "bool_cmp OP_LT a b = (\<not> a \<and> b)"
| "bool_cmp OP_GT a b = (a \<and> \<not> b)"
| "bool_cmp OP_LE a b = (\<not> a \<or> b)"
| "bool_cmp OP_GE a b = (a \<or> \<not> b)"

fun double_cmp :: "cmp_op \<Rightarrow> double \<Rightarrow> double \<Rightarrow> bool" where
  "double_cmp OP_EQ a b = d_eq a b"
| "double_cmp OP_LT a b = d_lt a b"
| "double_cmp OP_GT a b = d_gt a b"
| "double_cmp OP_LE a b = d_le a b"
| "double_cmp OP_GE a b = d_ge a b"

text \<open>\<^verbatim>\<open>std::string\<close>: bytes compared as unsigned values, a proper prefix is smaller.\<close>

fun string_less :: "string \<Rightarrow> string \<Rightarrow> bool" where
  "string_less [] [] = False"
| "string_less [] (y # ys) = True"
| "string_less (x # xs) [] = False"
| "string_less (x # xs) (y # ys) =
     ((of_char x :: nat) < of_char y \<or> (x = y \<and> string_less xs ys))"

fun string_cmp :: "cmp_op \<Rightarrow> string \<Rightarrow> string \<Rightarrow> bool" where
  "string_cmp OP_EQ a b = (a = b)"
| "string_cmp OP_LT a b = string_less a b"
| "string_cmp OP_GT a b = string_less b a"
| "string_cmp OP_LE a b = (\<not> string_less b a)"
| "string_cmp OP_GE a b = (\<not> string_less a b)"

fun RangeType_cmp :: "cmp_op \<Rightarrow> bool \<Rightarrow> RangeType \<Rightarrow> RangeType \<Rightarrow> bool option" where
  "RangeType_cmp OP_EQ same a b = RangeType_eq same a b"
| "RangeType_cmp OP_LT same a b = RangeType_lt a b"
| "RangeType_cmp OP_GT same a b = RangeType_gt a b"
| "RangeType_cmp OP_LE same a b = RangeType_le a b"
| "RangeType_cmp OP_GE same a b = RangeType_ge a b"

fun FunctionType_cmp :: "cmp_op \<Rightarrow> FunctionType \<Rightarrow> FunctionType \<Rightarrow> bool" where
  "FunctionType_cmp OP_EQ a b = FunctionType_eq a b"
| "FunctionType_cmp OP_LT a b = FunctionType_lt a b"
| "FunctionType_cmp OP_GT a b = FunctionType_gt a b"
| "FunctionType_cmp OP_LE a b = FunctionType_le a b"
| "FunctionType_cmp OP_GE a b = FunctionType_ge a b"

text \<open>
  The visitor. Two vectors are compared as \<^verbatim>\<open>std::vector<Value>\<close>: \<open>vec_equal\<close> is
  \<^verbatim>\<open>std::equal\<close> (called when the sizes agree), \<open>vec_less\<close> is
  \<^verbatim>\<open>std::lexicographical_compare\<close>; both call the comparison of Values on the
  elements, and \<^verbatim>\<open>>\<close>, \<^verbatim>\<open><=\<close>, \<^verbatim>\<open>>=\<close> of vectors are defined from
  \<^verbatim>\<open><\<close>. The last equation is the template for two different types.
\<close>

function (sequential) compare_visitor :: "cmp_op \<Rightarrow> Value \<Rightarrow> Value \<Rightarrow> bool option"
  and vec_equal :: "Value list \<Rightarrow> Value list \<Rightarrow> bool option"
  and vec_less :: "Value list \<Rightarrow> Value list \<Rightarrow> bool option" where
  "compare_visitor op VUndefined VUndefined = Some (blank_cmp op)"
| "compare_visitor op (VBool op1) (VBool op2) = Some (bool_cmp op op1 op2)"
| "compare_visitor op (VNumber op1) (VNumber op2) = Some (double_cmp op op1 op2)"
| "compare_visitor op (VString op1) (VString op2) = Some (string_cmp op op1 op2)"
| "compare_visitor op (VVector op1) (VVector op2) =
     (case op of
        OP_EQ \<Rightarrow> if length op1 = length op2 then vec_equal op1 op2 else Some False
      | OP_LT \<Rightarrow> vec_less op1 op2
      | OP_GT \<Rightarrow> vec_less op2 op1
      | OP_LE \<Rightarrow> map_option Not (vec_less op2 op1)
      | OP_GE \<Rightarrow> map_option Not (vec_less op1 op2))"
| "compare_visitor op (VRange op1) (VRange op2) = RangeType_cmp op False op1 op2"
| "compare_visitor op (VFunction op1) (VFunction op2) = Some (FunctionType_cmp op op1 op2)"
| "compare_visitor op (VBool op1) (VNumber op2) = Some (double_cmp op (double_of_bool op1) op2)"
| "compare_visitor op (VNumber op1) (VBool op2) = Some (double_cmp op op1 (double_of_bool op2))"
| "compare_visitor op _ _ = Some False"
| "vec_equal [] ys = Some True"
| "vec_equal (x # xs) [] = None"
| "vec_equal (x # xs) (y # ys) =
     (case compare_visitor OP_EQ x y of
        None \<Rightarrow> None
      | Some eq \<Rightarrow> if eq then vec_equal xs ys else Some False)"
| "vec_less [] ys = Some (ys \<noteq> [])"
| "vec_less (x # xs) [] = Some False"
| "vec_less (x # xs) (y # ys) =
     (case compare_visitor OP_LT x y of
        None \<Rightarrow> None
      | Some lt \<Rightarrow>
          if lt then Some True
          else (case compare_visitor OP_LT y x of
                  None \<Rightarrow> None
                | Some gt \<Rightarrow> if gt then Some False else vec_less xs ys))"
  by pat_completeness auto
termination
  by (relation "measure (\<lambda>x. case x of
          Inl (op, a, b) \<Rightarrow> size a + size b
        | Inr (Inl (xs, ys)) \<Rightarrow> size_list size xs + size_list size ys
        | Inr (Inr (xs, ys)) \<Rightarrow> size_list size xs + size_list size ys)") auto

text \<open>The operators of \<^verbatim>\<open>Value\<close>.\<close>

definition Value_eq :: "Value \<Rightarrow> Value \<Rightarrow> bool option" where
  "Value_eq this v = compare_visitor OP_EQ this v"

definition Value_ne :: "Value \<Rightarrow> Value \<Rightarrow> bool option" where
  "Value_ne this v = map_option Not (Value_eq this v)"

definition Value_lt :: "Value \<Rightarrow> Value \<Rightarrow> bool option" where
  "Value_lt this v = compare_visitor OP_LT this v"

definition Value_ge :: "Value \<Rightarrow> Value \<Rightarrow> bool option" where
  "Value_ge this v = compare_visitor OP_GE this v"

definition Value_gt :: "Value \<Rightarrow> Value \<Rightarrow> bool option" where
  "Value_gt this v = compare_visitor OP_GT this v"

definition Value_le :: "Value \<Rightarrow> Value \<Rightarrow> bool option" where
  "Value_le this v = compare_visitor OP_LE this v"

lemma RangeType_eq_same: "RangeType_eq True r r = RangeType_eq False r r"
proof (cases "numValues r")
  case None
  then show ?thesis by (simp add: RangeType_eq_def)
next
  case (Some n)
  show ?thesis
  proof (cases "n = 0")
    case True
    with Some show ?thesis by (simp add: RangeType_eq_def)
  next
    case False
    have nonan: "\<not> isnan (begin_val r) \<and> \<not> isnan (step_val r)"
      using Some False by (auto simp: numValues_def split: if_splits)
    then show ?thesis
      using Some False by (simp add: RangeType_eq_def d_eq_def)
  qed
qed





text \<open>
  C8. Every comparison operator of \<^verbatim>\<open>FunctionType\<close> except \<^verbatim>\<open>!=\<close> returns false for
  every pair of functions, a function paired with itself included, so \<^verbatim>\<open>!=\<close> is
  always true; the comparisons of two Function Values give the same answers.
\<close>

theorem C8_functions_incomparable:
  "\<not> FunctionType_eq f g \<and> \<not> FunctionType_lt f g \<and> \<not> FunctionType_le f g
   \<and> \<not> FunctionType_gt f g \<and> \<not> FunctionType_ge f g \<and> FunctionType_ne f g
   \<and> \<not> FunctionType_eq f f \<and> FunctionType_ne f f
   \<and> Value_eq (VFunction f) (VFunction g) = Some False
   \<and> Value_lt (VFunction f) (VFunction g) = Some False
   \<and> Value_le (VFunction f) (VFunction g) = Some False
   \<and> Value_gt (VFunction f) (VFunction g) = Some False
   \<and> Value_ge (VFunction f) (VFunction g) = Some False
   \<and> Value_ne (VFunction f) (VFunction g) = Some True
   \<and> Value_eq (VFunction f) (VFunction f) = Some False"
  by (simp add: FunctionType_eq_def FunctionType_ne_def FunctionType_lt_def FunctionType_le_def
      FunctionType_gt_def FunctionType_ge_def Value_eq_def Value_ne_def Value_lt_def
      Value_le_def Value_gt_def Value_ge_def)


section \<open>Flattening a vector\<close>

text \<open>
  \<^verbatim>\<open>Value::VectorPtr::flatten\<close> moves elements from one vector to another, and
  \<^verbatim>\<open>VectorPtr::clone\<close> copies the pointer only, so that several Vector values may
  share one vector of elements. The function is therefore modelled on a store: a
  \<open>heap\<close> is the list of the vectors in memory, and the address of a vector is its
  index. A \<open>Variant\<close> is a \<^verbatim>\<open>Value\<close> as it lies in memory, one constructor for each
  alternative of \<^verbatim>\<open>Value::Variant\<close>; the alternatives that hold a
  \<^verbatim>\<open>shared_ptr\<close> hold \<open>None\<close> for the null pointer, the address of the vector for a
  \<^verbatim>\<open>VectorPtr\<close>, and for the others what the pointer points to, which nothing changes.
  \<open>moved_from\<close> is the state in which the defaulted move constructors leave their
  argument: the pointer is null, a \<^verbatim>\<open>bool\<close> and a \<^verbatim>\<open>double\<close> stay as they are.
\<close>

datatype Variant =
    Blank
  | OfBool bool
  | OfDouble double
  | OfStr "string option"
  | OfVectorPtr "nat option"
  | OfRangePtr "RangeType option"
  | OfFunctionPtr "FunctionType option"

type_synonym VectorType = "Variant list"

type_synonym heap = "VectorType list"

fun moved_from :: "Variant \<Rightarrow> Variant" where
  "moved_from (OfStr p) = OfStr None"
| "moved_from (OfVectorPtr p) = OfVectorPtr None"
| "moved_from (OfRangePtr p) = OfRangePtr None"
| "moved_from (OfFunctionPtr p) = OfFunctionPtr None"
| "moved_from v = v"

text \<open>
  \<open>deref\<close> is \<^verbatim>\<open>*ptr\<close>, with no result for the null pointer. \<open>flatten_count\<close> is the
  \<^verbatim>\<open>std::accumulate\<close> over the elements, whose accumulator is an \<^verbatim>\<open>int\<close> of 32 bits.
  \<open>flatten_step\<close> is the body of the loop for the element at index \<open>k\<close> of the vector
  at \<open>this\<close>: the elements of a Vector element are move-constructed at the end of the
  vector at \<open>ret\<close> and left moved-from in the vector they come from; any other element
  is move-constructed at the end of the vector at \<open>ret\<close> and left moved-from in the
  vector at \<open>this\<close>. \<open>flatten_loop\<close> is the loop, over the indices that the vector at
  \<open>this\<close> has when the loop starts. \<open>flatten\<close> returns the heap and the address that
  \<^verbatim>\<open>this->ptr\<close> holds in the end, the address of the new vector \<^verbatim>\<open>ret\<close>;
  \<^verbatim>\<open>reserve\<close> throws \<^verbatim>\<open>std::length_error\<close> when the count, converted to
  \<^verbatim>\<open>size_t\<close>, is negative as an \<^verbatim>\<open>int\<close>. Running out of memory is not modelled.
\<close>

datatype flatten_error = length_error | undefined_behaviour

definition deref :: "heap \<Rightarrow> nat option \<Rightarrow> VectorType option" where
  "deref h p = (case p of None \<Rightarrow> None
                | Some a \<Rightarrow> if a < length h then Some (h ! a) else None)"

fun flatten_count :: "heap \<Rightarrow> VectorType \<Rightarrow> 32 word \<Rightarrow> 32 word option" where
  "flatten_count h [] i = Some i"
| "flatten_count h (OfVectorPtr p # vs) i =
     (case deref h p of
        None \<Rightarrow> None
      | Some w \<Rightarrow> flatten_count h vs (i + word_of_nat (length w)))"
| "flatten_count h (v # vs) i = flatten_count h vs (i + 1)"

definition flatten_step :: "nat \<Rightarrow> nat \<Rightarrow> heap \<Rightarrow> nat \<Rightarrow> heap option" where
  "flatten_step this ret h k =
     (case h ! this ! k of
        OfVectorPtr p \<Rightarrow>
          (case deref h p of
             None \<Rightarrow> None
           | Some w \<Rightarrow>
               if p = Some ret then None
               else Some ((h[ret := h ! ret @ w])[the p := map moved_from w]))
      | v \<Rightarrow> Some ((h[ret := h ! ret @ [v]])[this := (h ! this)[k := moved_from v]]))"

fun flatten_loop :: "nat \<Rightarrow> nat \<Rightarrow> heap \<Rightarrow> nat list \<Rightarrow> heap option" where
  "flatten_loop this ret h [] = Some h"
| "flatten_loop this ret h (k # ks) =
     (case flatten_step this ret h k of
        None \<Rightarrow> None
      | Some h' \<Rightarrow> flatten_loop this ret h' ks)"

definition flatten :: "heap \<Rightarrow> nat \<Rightarrow> flatten_error + heap \<times> nat" where
  "flatten h this =
     (if length h \<le> this then Inl undefined_behaviour
      else case flatten_count h (h ! this) 0 of
        None \<Rightarrow> Inl undefined_behaviour
      | Some n \<Rightarrow>
          if sint n < 0 then Inl length_error
          else let ret = length h in
            case flatten_loop this ret (h @ [[]]) [0..<length (h ! this)] of
              None \<Rightarrow> Inl undefined_behaviour
            | Some h' \<Rightarrow> Inr (h', ret))"

text \<open>
  Where no vector is shared, the function does what one expects of it. \<open>own_elements\<close>
  is what an element contributes: the elements of its vector for a Vector, itself
  otherwise. \<open>unshared\<close> says of the elements \<open>vs\<close> of the vector at \<open>this\<close> that no
  Vector among them has a null pointer, that no two of them point to the same vector,
  and that none of them points to the vector at \<open>this\<close> itself. Then, for fewer than
  \<open>2^31\<close> elements in all, the new vector holds the elements of each Vector element
  and every other element itself, in order; a vector without Vector elements is
  copied as it is. A count of \<open>2^31\<close> makes \<^verbatim>\<open>reserve\<close> throw.
\<close>

definition own_elements :: "heap \<Rightarrow> Variant \<Rightarrow> VectorType" where
  "own_elements h v = (case v of OfVectorPtr (Some a) \<Rightarrow> h ! a | _ \<Rightarrow> [v])"

fun vector_addresses :: "VectorType \<Rightarrow> nat list" where
  "vector_addresses [] = []"
| "vector_addresses (OfVectorPtr (Some a) # vs) = a # vector_addresses vs"
| "vector_addresses (v # vs) = vector_addresses vs"

definition unshared :: "heap \<Rightarrow> nat \<Rightarrow> VectorType \<Rightarrow> bool" where
  "unshared h this vs \<longleftrightarrow>
     OfVectorPtr None \<notin> set vs \<and> distinct (vector_addresses vs)
     \<and> list_all (\<lambda>a. a < length h \<and> a \<noteq> this) (vector_addresses vs)"

lemma own_elements_other:
  assumes "\<And>b. b \<in> set (vector_addresses vs) \<Longrightarrow> h' ! b = h ! b"
  shows "map (own_elements h') vs = map (own_elements h) vs"
  using assms
  by (induction vs rule: vector_addresses.induct) (auto simp: own_elements_def)

lemma flatten_loop_unshared:
  assumes "this < ret" "ret < length h" "drop k (h ! this) = rest"
    "OfVectorPtr None \<notin> set rest" "distinct (vector_addresses rest)"
    "list_all (\<lambda>a. a < ret \<and> a \<noteq> this) (vector_addresses rest)"
  shows "\<exists>h'. flatten_loop this ret h [k..<length (h ! this)] = Some h'
           \<and> h' ! ret = h ! ret @ concat (map (own_elements h) rest)"
  using assms
proof (induction rest arbitrary: h k)
  case Nil
  then show ?case by simp
next
  case (Cons v rest)
  have k: "k < length (h ! this)"
    using Cons.prems(3) by (metis drop_all list.distinct(1) not_le)
  then have upt: "[k..<length (h ! this)] = k # [Suc k..<length (h ! this)]"
    by (rule upt_conv_Cons)
  have v: "h ! this ! k = v"
    using Cons.prems(3) k by (metis nth_via_drop)
  have rest: "drop (Suc k) (h ! this) = rest"
    using Cons.prems(3) by (metis drop_Suc tl_drop list.sel(3))
  show ?case
  proof (cases "\<exists>a. v = OfVectorPtr (Some a)")
    case True
    then obtain a where a: "v = OfVectorPtr (Some a)" by blast
    have bounds: "a < ret" "a \<noteq> this" "a \<notin> set (vector_addresses rest)"
      using Cons.prems(5,6) a by simp_all
    define h1 where "h1 = (h[ret := h ! ret @ h ! a])[a := map moved_from (h ! a)]"
    have step: "flatten_step this ret h k = Some h1"
      using v a bounds Cons.prems(2) by (simp add: flatten_step_def deref_def h1_def)
    have h1: "length h1 = length h" "h1 ! this = h ! this" "h1 ! ret = h ! ret @ h ! a"
      using bounds Cons.prems(1,2) by (simp_all add: h1_def)
    have same: "map (own_elements h1) rest = map (own_elements h) rest"
    proof (rule own_elements_other)
      fix b assume "b \<in> set (vector_addresses rest)"
      then have "b \<noteq> a" "b \<noteq> ret"
        using bounds(3) Cons.prems(6) a by (auto simp: list_all_iff)
      then show "h1 ! b = h ! b"
        by (simp add: h1_def)
    qed
    have "\<exists>h'. flatten_loop this ret h1 [Suc k..<length (h1 ! this)] = Some h'
           \<and> h' ! ret = h1 ! ret @ concat (map (own_elements h1) rest)"
    proof (rule Cons.IH)
      show "this < ret" by (rule Cons.prems(1))
      show "ret < length h1" using Cons.prems(2) h1(1) by simp
      show "drop (Suc k) (h1 ! this) = rest" using rest h1(2) by simp
      show "OfVectorPtr None \<notin> set rest" using Cons.prems(4) by simp
      show "distinct (vector_addresses rest)" using Cons.prems(5) a by simp
      show "list_all (\<lambda>a. a < ret \<and> a \<noteq> this) (vector_addresses rest)"
        using Cons.prems(6) a by simp
    qed
    moreover have "own_elements h v = h ! a"
      using a by (simp add: own_elements_def)
    ultimately show ?thesis
      using step upt h1 same by simp
  next
    case False
    then have nv: "\<forall>p. v \<noteq> OfVectorPtr p"
      using Cons.prems(4) by (metis list.set_intros(1) not_Some_eq)
    define h1 where "h1 = (h[ret := h ! ret @ [v]])[this := (h ! this)[k := moved_from v]]"
    have step: "flatten_step this ret h k = Some h1"
      using v nv by (cases v) (auto simp add: flatten_step_def h1_def)
    have h1: "length h1 = length h" "h1 ! this = (h ! this)[k := moved_from v]"
      "h1 ! ret = h ! ret @ [v]"
      using Cons.prems(1,2) by (simp_all add: h1_def)
    have addr: "vector_addresses (v # rest) = vector_addresses rest"
      using nv by (cases v) auto
    have same: "map (own_elements h1) rest = map (own_elements h) rest"
    proof (rule own_elements_other)
      fix b assume "b \<in> set (vector_addresses rest)"
      then have "b \<noteq> this" "b \<noteq> ret"
        using Cons.prems(6) addr by (auto simp: list_all_iff)
      then show "h1 ! b = h ! b"
        by (simp add: h1_def)
    qed
    have "\<exists>h'. flatten_loop this ret h1 [Suc k..<length (h1 ! this)] = Some h'
           \<and> h' ! ret = h1 ! ret @ concat (map (own_elements h1) rest)"
    proof (rule Cons.IH)
      show "this < ret" by (rule Cons.prems(1))
      show "ret < length h1" using Cons.prems(2) h1(1) by simp
      show "drop (Suc k) (h1 ! this) = rest" using rest h1(2) by (simp add: drop_update_cancel)
      show "OfVectorPtr None \<notin> set rest" using Cons.prems(4) by simp
      show "distinct (vector_addresses rest)" using Cons.prems(5) addr by simp
      show "list_all (\<lambda>a. a < ret \<and> a \<noteq> this) (vector_addresses rest)"
        using Cons.prems(6) addr by simp
    qed
    moreover have "own_elements h v = [v]"
      using nv by (cases v) (auto simp add: own_elements_def)
    ultimately show ?thesis
      using step upt h1 same by simp
  qed
qed

lemma flatten_count_unshared:
  assumes "OfVectorPtr None \<notin> set vs" "list_all (\<lambda>a. a < length h) (vector_addresses vs)"
  shows "flatten_count h vs i
           = Some (i + word_of_nat (length (concat (map (own_elements h) vs))))"
  using assms
proof (induction h vs i rule: flatten_count.induct)
  case (2 h p vs i)
  then obtain a where "p = Some a" by (cases p) auto
  then show ?case
    using 2 by (simp add: deref_def own_elements_def algebra_simps)
qed (simp_all add: own_elements_def algebra_simps)

lemma flatten_unshared:
  assumes "this < length h" "unshared h this (h ! this)"
    "length (concat (map (own_elements h) (h ! this))) < 2 ^ 31"
  shows "\<exists>h'. flatten h this = Inr (h', length h)
           \<and> h' ! length h = concat (map (own_elements h) (h ! this))"
proof -
  let ?n = "length (concat (map (own_elements h) (h ! this)))"
  have addrs: "list_all (\<lambda>a. a < length h \<and> a \<noteq> this) (vector_addresses (h ! this))"
    using assms(2) by (simp add: unshared_def)
  then have "list_all (\<lambda>a. a < length h) (vector_addresses (h ! this))"
    by (simp add: list_all_iff)
  then have count: "flatten_count h (h ! this) 0 = Some (word_of_nat ?n)"
    using assms(2) flatten_count_unshared [of "h ! this" h 0] by (simp add: unshared_def)
  have "sint (word_of_nat ?n :: 32 word) = int ?n"
    using assms(3)
    by (simp add: sint_uint unsigned_of_nat take_bit_nat_eq_self signed_take_bit_int_eq_self)
  then have pos: "\<not> sint (word_of_nat ?n :: 32 word) < 0"
    by simp
  let ?h = "h @ [[]]"
  have same: "map (own_elements ?h) (h ! this) = map (own_elements h) (h ! this)"
  proof (rule own_elements_other)
    fix b assume "b \<in> set (vector_addresses (h ! this))"
    then have "b < length h"
      using addrs by (auto simp: list_all_iff)
    then show "?h ! b = h ! b"
      by (simp add: nth_append)
  qed
  have "\<exists>h'. flatten_loop this (length h) ?h [0..<length (?h ! this)] = Some h'
           \<and> h' ! length h = ?h ! length h @ concat (map (own_elements ?h) (h ! this))"
  proof (rule flatten_loop_unshared)
    show "drop 0 (?h ! this) = h ! this"
      using assms(1) by (simp add: nth_append)
  qed (use assms(1,2) addrs in \<open>simp_all add: unshared_def\<close>)
  then show ?thesis
    using assms(1) count pos same by (auto simp: flatten_def nth_append)
qed


lemma flatten_length_error:
  "length w = 2 ^ 31 \<Longrightarrow> flatten [[OfVectorPtr (Some 1)], w] 0 = Inl length_error"
  by (simp add: flatten_def deref_def)

lemma flatten_no_vectors:
  assumes "this < length h" "\<forall>v \<in> set (h ! this). \<forall>p. v \<noteq> OfVectorPtr p"
    "length (h ! this) < 2 ^ 31"
  shows "\<exists>h'. flatten h this = Inr (h', length h) \<and> h' ! length h = h ! this"
proof -
  have a: "vector_addresses vs = []" if "\<forall>v \<in> set vs. \<forall>p. v \<noteq> OfVectorPtr p" for vs
    using that by (induction vs rule: vector_addresses.induct) auto
  have b: "concat (map (own_elements h) vs) = vs"
    if "\<forall>v \<in> set vs. \<forall>p. v \<noteq> OfVectorPtr p" for vs
    using that by (induction vs rule: vector_addresses.induct) (auto simp: own_elements_def)
  have "unshared h this (h ! this)"
    using assms(2) a [of "h ! this"] by (auto simp: unshared_def)
  then show ?thesis
    using flatten_unshared [of this h] assms b [of "h ! this"] by simp
qed

text \<open>
  C9. The specification has each Vector element replaced by its own elements. The function
  takes them out of the element's vector, which the element may share with another
  element. In the heap \<open>[[v\<^sub>1, v\<^sub>1], ["s"]]\<close>, where the vector at address 0 holds two
  Vector values that both point to the vector at address 1, as \<^verbatim>\<open>a.clone()\<close> and
  \<^verbatim>\<open>a.clone()\<close> for a Vector \<open>a = ["s"]\<close> do, flattening the vector at address 0 returns
  the new vector \<open>["s", s\<^sub>0]\<close>, where \<open>s\<^sub>0\<close> is a String whose pointer is null: the
  second element finds the String already moved out. With two vectors \<open>["s"]\<close> that
  are not shared, the result is \<open>["s", "s"]\<close>.
\<close>

theorem C9_flatten_shared_vector:
  "flatten [[OfVectorPtr (Some 1), OfVectorPtr (Some 1)], [OfStr (Some ''s'')]] 0
     = Inr ([[OfVectorPtr (Some 1), OfVectorPtr (Some 1)], [OfStr None],
             [OfStr (Some ''s''), OfStr None]], 2)
   \<and> flatten [[OfVectorPtr (Some 1), OfVectorPtr (Some 2)],
              [OfStr (Some ''s'')], [OfStr (Some ''s'')]] 0
     = Inr ([[OfVectorPtr (Some 1), OfVectorPtr (Some 2)], [OfStr None], [OfStr None],
             [OfStr (Some ''s''), OfStr (Some ''s'')]], 3)"
  by (simp add: flatten_def flatten_step_def deref_def upt_rec)

section \<open>Reading coordinates\<close>

text \<open>
  \<^verbatim>\<open>getDouble\<close>, \<^verbatim>\<open>getFiniteDouble\<close> and \<^verbatim>\<open>getVec2\<close> return a \<^verbatim>\<open>bool\<close> and assign
  their reference parameters when they return true only. They are modelled by an
  option: \<open>Some\<close> holds what is assigned and stands for true, \<open>None\<close> stands for false
  with nothing assigned.
\<close>

definition getDouble :: "Value \<Rightarrow> double option" where
  "getDouble this = (case this of VNumber d \<Rightarrow> Some d | _ \<Rightarrow> None)"

definition getFiniteDouble :: "Value \<Rightarrow> double option" where
  "getFiniteDouble this =
     (case getDouble this of
        None \<Rightarrow> None
      | Some result \<Rightarrow> if isfinite result then Some result else None)"

definition getVec2 :: "Value \<Rightarrow> bool \<Rightarrow> (double \<times> double) option" where
  "getVec2 this ignoreInfinite =
     (if type this \<noteq> VECTOR then None
      else if length (toVector this) \<noteq> 2 then None
      else if ignoreInfinite then
        (case getFiniteDouble (toVector this ! 0) of
           None \<Rightarrow> None
         | Some rx \<Rightarrow>
             (case getFiniteDouble (toVector this ! 1) of None \<Rightarrow> None | Some ry \<Rightarrow> Some (rx, ry)))
      else
        (case getDouble (toVector this ! 0) of
           None \<Rightarrow> None
         | Some rx \<Rightarrow>
             (case getDouble (toVector this ! 1) of None \<Rightarrow> None | Some ry \<Rightarrow> Some (rx, ry))))"

text \<open>
  \<^verbatim>\<open>getVec3(x, y, z, defaultval)\<close>: the three reference parameters are passed in and
  returned after the \<^verbatim>\<open>bool\<close>. In the last statement each \<^verbatim>\<open>getDouble\<close> assigns its
  parameter before the next one is called.
\<close>

definition getVec3 ::
  "Value \<Rightarrow> double \<Rightarrow> double \<Rightarrow> double \<Rightarrow> double \<Rightarrow> bool \<times> double \<times> double \<times> double" where
  "getVec3 this x y z defaultval =
     (if type this \<noteq> VECTOR then (False, x, y, z)
      else if length (toVector this) = 2 then
        (case getVec2 this False of
           None \<Rightarrow> (True, x, y, defaultval)
         | Some (x', y') \<Rightarrow> (True, x', y', defaultval))
      else if length (toVector this) \<noteq> 3 then (False, x, y, z)
      else
        (case getDouble (toVector this ! 0) of
           None \<Rightarrow> (False, x, y, z)
         | Some x' \<Rightarrow>
             (case getDouble (toVector this ! 1) of
                None \<Rightarrow> (False, x', y, z)
              | Some y' \<Rightarrow>
                  (case getDouble (toVector this ! 2) of
                     None \<Rightarrow> (False, x', y', z)
                   | Some z' \<Rightarrow> (True, x', y', z')))))"

lemma getDouble_Some: "(getDouble v \<noteq> None) = (type v = NUMBER)"
  by (cases v) (simp_all add: getDouble_def)

lemma getVec3_length2:
  "getVec3 (VVector [a, b]) x y z dv =
     (if type a = NUMBER \<and> type b = NUMBER then (True, toDouble a, toDouble b, dv)
      else (True, x, y, dv))"
  by (cases a; cases b) (simp_all add: getVec3_def getVec2_def getDouble_def)

lemma getVec3_length3:
  "fst (getVec3 (VVector [a, b, c]) x y z dv)
     = (type a = NUMBER \<and> type b = NUMBER \<and> type c = NUMBER)"
  by (cases a; cases b; cases c) (simp_all add: getVec3_def getDouble_def)

lemma getVec3_other:
  "type v \<noteq> VECTOR \<or> (length (toVector v) \<noteq> 2 \<and> length (toVector v) \<noteq> 3)
   \<Longrightarrow> getVec3 v x y z dv = (False, x, y, z)"
  by (auto simp: getVec3_def)

text \<open>
  C10. On a Vector of length 2, \<^verbatim>\<open>getVec3\<close> with a default returns true and assigns
  the default to \<open>z\<close> whatever the two elements are; \<open>x\<close> and \<open>y\<close> are assigned when both
  elements are Numbers and are left as they were otherwise. On a Vector of length 3 it
  returns true exactly when the three elements are Numbers. On any other Value it
  returns false (and assigns nothing).
\<close>

theorem C10_getVec3_default:
  "(length vs = 2 \<longrightarrow>
      getVec3 (VVector vs) x y z dv =
        (if type (vs ! 0) = NUMBER \<and> type (vs ! 1) = NUMBER
         then (True, toDouble (vs ! 0), toDouble (vs ! 1), dv) else (True, x, y, dv)))
   \<and> (length vs = 3 \<longrightarrow>
      fst (getVec3 (VVector vs) x y z dv) = (\<forall>i < 3. type (vs ! i) = NUMBER))
   \<and> (type v \<noteq> VECTOR \<or> (length (toVector v) \<noteq> 2 \<and> length (toVector v) \<noteq> 3)
      \<longrightarrow> getVec3 v x y z dv = (False, x, y, z))"
proof (intro conjI impI)
  assume "length vs = 2"
  then obtain a b where vs: "vs = [a, b]"
    by (cases vs; cases "tl vs") auto
  show "getVec3 (VVector vs) x y z dv =
        (if type (vs ! 0) = NUMBER \<and> type (vs ! 1) = NUMBER
         then (True, toDouble (vs ! 0), toDouble (vs ! 1), dv) else (True, x, y, dv))"
    unfolding vs by (simp add: getVec3_length2)
next
  assume "length vs = 3"
  then obtain a b c where vs: "vs = [a, b, c]"
    by (cases vs; cases "tl vs"; cases "tl (tl vs)") auto
  have "(\<forall>i < 3. type ([a, b, c] ! i) = NUMBER)
          = (type a = NUMBER \<and> type b = NUMBER \<and> type c = NUMBER)"
    by (auto simp: less_Suc_eq numeral_3_eq_3)
  then show "fst (getVec3 (VVector vs) x y z dv) = (\<forall>i < 3. type (vs ! i) = NUMBER)"
    unfolding vs by (simp only: getVec3_length3)
next
  assume "type v \<noteq> VECTOR \<or> (length (toVector v) \<noteq> 2 \<and> length (toVector v) \<noteq> 3)"
  then show "getVec3 v x y z dv = (False, x, y, z)"
    by (rule getVec3_other)
qed

theorem C10_getVec3_default_witness:
  "getVec3 (VVector [VString ''a'', VNumber (lit 2 1)]) (lit 7 1) (lit 8 1) (lit 9 1) 0
     = (True, lit 7 1, lit 8 1, 0)
   \<and> fst (getVec3 (VVector [VNumber 0, VNumber 0, VBool True]) 0 0 0 0) = False
   \<and> getVec3 (VString ''ab'') 0 0 0 (lit 1 1) = (False, 0, 0, 0)"
proof -
  have "getVec3 (VVector [VString ''a'', VNumber (lit 2 1)]) (lit 7 1) (lit 8 1) (lit 9 1) 0
     = (True, lit 7 1, lit 8 1, 0)"
    using C10_getVec3_default [of "[VString ''a'', VNumber (lit 2 1)]"] by simp
  moreover have "fst (getVec3 (VVector [VNumber 0, VNumber 0, VBool True]) 0 0 0 0) = False"
    using C10_getVec3_default [of "[VNumber 0, VNumber 0, VBool True]" 0 0 0 0]
    by (simp add: numeral_3_eq_3 less_Suc_eq)
  moreover have "getVec3 (VString ''ab'') 0 0 0 (lit 1 1) = (False, 0, 0, 0)"
    using C10_getVec3_default [of _ _ _ _ _ "VString ''ab''"] by simp
  ultimately show ?thesis by simp
qed


section \<open>The number of values of a range\<close>

text \<open>
  The rule of the specification for \<^verbatim>\<open>numValues\<close>, case by case in its words, as an
  integer: in the last case the nudged quotient is truncated to an integer, 1 is added
  and the sum is clamped to \<open>UINT32_MAX\<close>.
\<close>

definition numValues_spec :: "RangeType \<Rightarrow> int" where
  "numValues_spec r =
     (if isnan (begin_val r) \<or> isnan (step_val r) \<or> isnan (end_val r) then 0
      else if (d_lt (step_val r) 0 \<and> d_lt (begin_val r) (end_val r))
              \<or> (d_ge (step_val r) 0 \<and> d_gt (begin_val r) (end_val r)) then 0
      else if d_eq (begin_val r) (end_val r) \<or> isinf (step_val r) then 1
      else if isinf (begin_val r) \<or> isinf (end_val r) \<or> d_eq (step_val r) 0
        then uint UINT32_MAX
      else min (trunc_of (nextafter (d_div (d_sub (end_val r) (begin_val r)) (step_val r))
                   (double_of_uint32 UINT32_MAX)) + 1) (uint UINT32_MAX))"

lemma isnan_zero: "\<not> isnan 0"
  by (simp add: isnan_def mag_of_def inf_mag_def)

lemma d_ge_zero: "\<not> isnan s \<Longrightarrow> d_ge s 0 = (\<not> d_lt s 0)"
  by (auto simp: d_ge_def d_le_def d_lt_def isnan_zero)

lemma double_to_uint32_Some:
  "double_to_uint32 x = Some w
   \<Longrightarrow> uint w = trunc_of x \<and> 0 \<le> trunc_of x \<and> trunc_of x < 2 ^ 32"
  by (auto simp: double_to_uint32_def uint_word_of_int take_bit_int_eq_self split: if_splits)

lemma count_clamp:
  "uint (if w = UINT32_MAX then UINT32_MAX else w + 1)
     = min (uint (w :: uint32_t) + 1) (uint UINT32_MAX)"
proof (cases "w = UINT32_MAX")
  case True
  then show ?thesis by (simp add: UINT32_MAX_def)
next
  case False
  then have "uint w \<noteq> uint UINT32_MAX"
    by (simp add: word_uint_eq_iff)
  then have neq: "uint w \<noteq> 4294967295"
    by (simp add: UINT32_MAX_def)
  have bound: "uint w < 4294967296"
    using uint_lt2p [of w] by simp
  have nonneg: "0 \<le> uint w"
    by simp
  have "uint (w + 1) = (uint w + 1) mod 4294967296"
    by (simp add: uint_word_ariths)
  also have "\<dots> = uint w + 1"
    using neq bound nonneg by (simp add: mod_pos_pos_trivial)
  finally show ?thesis
    using False neq bound by (simp add: UINT32_MAX_def)
qed

text \<open>Wherever \<^verbatim>\<open>numValues\<close> has a defined result, it is the count of the rule.\<close>

lemma numValues_agrees:
  assumes a: "numValues r = Some n"
  shows "uint n = numValues_spec r"
proof -
  let ?x = "nextafter (d_div (d_sub (end_val r) (begin_val r)) (step_val r))
              (double_of_uint32 UINT32_MAX)"
  define nan where "nan = (isnan (begin_val r) \<or> isnan (end_val r) \<or> isnan (step_val r))"
  define mismatch where "mismatch =
    (if d_lt (step_val r) 0 then d_lt (begin_val r) (end_val r)
     else d_gt (begin_val r) (end_val r))"
  define one where "one = (d_eq (begin_val r) (end_val r) \<or> isinf (step_val r))"
  define unbounded where
    "unbounded = (isinf (begin_val r) \<or> isinf (end_val r) \<or> d_eq (step_val r) 0)"
  have code: "numValues r =
      (if nan then Some 0 else if mismatch then Some 0 else if one then Some 1
       else if unbounded then Some UINT32_MAX
       else (case double_to_uint32 ?x of None \<Rightarrow> None
             | Some num_steps \<Rightarrow>
                 Some (if num_steps = UINT32_MAX then UINT32_MAX else num_steps + 1)))"
    unfolding nan_def mismatch_def one_def unbounded_def numValues_def by (rule refl)
  have dir: "\<not> nan \<Longrightarrow>
      ((d_lt (step_val r) 0 \<and> d_lt (begin_val r) (end_val r))
        \<or> (d_ge (step_val r) 0 \<and> d_gt (begin_val r) (end_val r))) = mismatch"
    unfolding nan_def mismatch_def by (auto simp: d_ge_zero)
  have nan': "nan = (isnan (begin_val r) \<or> isnan (step_val r) \<or> isnan (end_val r))"
    unfolding nan_def by blast
  have spec: "numValues_spec r =
      (if nan then 0 else if mismatch then 0 else if one then 1
       else if unbounded then uint UINT32_MAX
       else min (trunc_of ?x + 1) (uint UINT32_MAX))"
    using dir unfolding numValues_spec_def nan' [symmetric] one_def unbounded_def
    by (cases nan) simp_all
  show ?thesis
  proof (cases "nan \<or> mismatch \<or> one \<or> unbounded")
    case True
    with a show ?thesis
      unfolding code spec by (auto split: if_splits)
  next
    case False
    with a obtain w where w: "double_to_uint32 ?x = Some w"
      and n: "n = (if w = UINT32_MAX then UINT32_MAX else w + 1)"
      unfolding code by (auto split: option.splits)
    have "uint n = min (uint w + 1) (uint UINT32_MAX)"
      unfolding n by (rule count_clamp)
    also have "uint w = trunc_of ?x"
      using double_to_uint32_Some [OF w] by simp
    finally show ?thesis
      using False unfolding spec by simp
  qed
qed

text \<open>It has none exactly when the last case is reached with a quotient that does not fit.\<close>

lemma numValues_undefined:
  "(numValues r = None) =
     (\<not> (isnan (begin_val r) \<or> isnan (end_val r) \<or> isnan (step_val r))
      \<and> \<not> (if d_lt (step_val r) 0 then d_lt (begin_val r) (end_val r)
            else d_gt (begin_val r) (end_val r))
      \<and> \<not> (d_eq (begin_val r) (end_val r) \<or> isinf (step_val r))
      \<and> \<not> (isinf (begin_val r) \<or> isinf (end_val r) \<or> d_eq (step_val r) 0)
      \<and> double_to_uint32 (nextafter (d_div (d_sub (end_val r) (begin_val r)) (step_val r))
              (double_of_uint32 UINT32_MAX)) = None)"
  by (simp add: numValues_def split: option.splits)

text \<open>The five examples of the specification.\<close>

lemma numValues_1_1_5:
  "numValues \<lparr>begin_val = lit 1 1, step_val = lit 1 1, end_val = lit 5 1\<rparr> = Some 5"
  by (simp add: numValues_def UINT32_MAX_def double_defs)

lemma numValues_5_m1_1:
  "numValues \<lparr>begin_val = lit 5 1, step_val = d_neg (lit 1 1), end_val = lit 1 1\<rparr> = Some 5"
  by (simp add: numValues_def UINT32_MAX_def double_defs)

lemma numValues_1_0_5:
  "numValues \<lparr>begin_val = lit 1 1, step_val = 0, end_val = lit 5 1\<rparr> = Some UINT32_MAX"
  by (simp add: numValues_def UINT32_MAX_def double_defs)

lemma numValues_1_1_1:
  "numValues \<lparr>begin_val = lit 1 1, step_val = lit 1 1, end_val = lit 1 1\<rparr> = Some 1"
  by (simp add: numValues_def UINT32_MAX_def double_defs)

lemma numValues_5_1_1:
  "numValues \<lparr>begin_val = lit 5 1, step_val = lit 1 1, end_val = lit 1 1\<rparr> = Some 0"
  by (simp add: numValues_def UINT32_MAX_def double_defs)

text \<open>
  C1. The range \<open>[0 : 1 : 1e10]\<close> reaches the last case of \<^verbatim>\<open>numValues\<close> with the
  quotient 1e10: the rule of the specification gives the clamped count \<open>UINT32_MAX\<close>,
  while the conversion of the source has no defined result there.
\<close>

theorem C1_numValues_not_clamped:
  "numValues \<lparr>begin_val = 0, step_val = lit 1 1, end_val = lit 10000000000 1\<rparr> = None
   \<and> numValues_spec \<lparr>begin_val = 0, step_val = lit 1 1, end_val = lit 10000000000 1\<rparr>
       = uint UINT32_MAX"
  by (simp add: numValues_def numValues_spec_def UINT32_MAX_def double_defs)


section \<open>Iterating a range\<close>

text \<open>
  \<^verbatim>\<open>RangeType::iterator\<close>: the range it refers to, the current value, the state, the
  number of values (computed once, by the constructor) and the index of the step.
\<close>

datatype type_t = RANGE_TYPE_BEGIN | RANGE_TYPE_RUNNING | RANGE_TYPE_END

record range_iterator =
  range :: RangeType
  val :: double
  it_type :: type_t
  num_values :: uint32_t
  i_step :: uint32_t

text \<open>\<^verbatim>\<open>update_type\<close>, the constructor, \<^verbatim>\<open>operator++\<close>, \<^verbatim>\<open>operator==\<close> and \<^verbatim>\<open>operator!=\<close>.
  Both iterators of a comparison in \<^verbatim>\<open>chr_visitor\<close> refer to the same range object, so
  the pointer test of \<^verbatim>\<open>RangeType::operator==\<close> holds there.\<close>

definition update_type :: "range_iterator \<Rightarrow> range_iterator" where
  "update_type it =
     (let it1 =
        (if d_eq (step_val (range it)) 0 then it\<lparr>it_type := RANGE_TYPE_END\<rparr>
         else if d_lt (step_val (range it)) 0 then
           (if num_values it \<le> i_step it then it\<lparr>it_type := RANGE_TYPE_END\<rparr> else it)
         else
           (if num_values it \<le> i_step it then it\<lparr>it_type := RANGE_TYPE_END\<rparr> else it))
      in if isnan (begin_val (range it)) \<or> isnan (end_val (range it)) \<or> isnan (step_val (range it))
         then it1\<lparr>it_type := RANGE_TYPE_END, i_step := num_values it1\<rparr>
         else it1)"

definition iterator :: "RangeType \<Rightarrow> type_t \<Rightarrow> range_iterator option" where
  "iterator r t = do {
     n \<leftarrow> numValues r;
     Some (update_type \<lparr>range = r, val = begin_val r, it_type = t, num_values = n,
                        i_step = (if t = RANGE_TYPE_END then n else 0)\<rparr>) }"

definition increment :: "range_iterator \<Rightarrow> range_iterator" where
  "increment it =
     update_type (it\<lparr>i_step := i_step it + 1,
        val := d_add (begin_val (range it))
                 (d_mul (step_val (range it)) (double_of_uint32 (i_step it + 1)))\<rparr>)"

definition iterator_eq :: "range_iterator \<Rightarrow> range_iterator \<Rightarrow> bool option" where
  "iterator_eq this other =
     (if it_type this = RANGE_TYPE_RUNNING then
        (if it_type this = it_type other \<and> d_eq (val this) (val other)
         then RangeType_eq True (range this) (range other) else Some False)
      else
        (if it_type this = it_type other
         then RangeType_eq True (range this) (range other) else Some False))"

definition iterator_ne :: "range_iterator \<Rightarrow> range_iterator \<Rightarrow> bool option" where
  "iterator_ne this other = map_option Not (iterator_eq this other)"

text \<open>The loop over a range ends: a bound on the iterations left.\<close>

lemma word_succ_lt:
  fixes i n :: uint32_t
  assumes "i < n"
  shows "unat (i + 1) = Suc (unat i)"
proof -
  have "unat i < unat n"
    using assms by (simp add: word_less_nat_alt)
  moreover have "unat n < 2 ^ 32"
    using unsigned_less [of n] by simp
  ultimately have "unat i + 1 < 2 ^ 32"
    by simp
  then show ?thesis
    by (simp add: unat_word_ariths)
qed

definition steps_left :: "range_iterator \<Rightarrow> nat" where
  "steps_left it =
     (if it_type it = RANGE_TYPE_END then 0
      else Suc (if it_type (increment it) = RANGE_TYPE_END then 0
                else unat (num_values it) - unat (i_step it + 1)))"

lemma increment_fields:
  "num_values (increment it) = num_values it \<and> range (increment it) = range it"
  by (simp add: increment_def update_type_def Let_def)

lemma increment_running:
  "it_type (increment it) \<noteq> RANGE_TYPE_END \<Longrightarrow>
     i_step (increment it) = i_step it + 1 \<and> i_step it + 1 < num_values it
     \<and> it_type it \<noteq> RANGE_TYPE_END"
  by (auto simp: increment_def update_type_def Let_def split: if_splits)

lemma steps_left_decreases:
  assumes "it_type it \<noteq> RANGE_TYPE_END"
  shows "steps_left (increment it) < steps_left it"
proof (cases "it_type (increment it) = RANGE_TYPE_END")
  case True
  with assms show ?thesis by (simp add: steps_left_def)
next
  case False
  note r = increment_running [OF False]
  have lt: "i_step it + 1 < num_values it" using r by simp
  have s: "unat (i_step it + 1 + 1) = Suc (unat (i_step it + 1))"
    using lt by (rule word_succ_lt)
  have u: "unat (i_step it + 1) < unat (num_values it)"
    using lt by (simp add: word_less_nat_alt)
  have "steps_left (increment it) \<le> Suc (unat (num_values it) - Suc (unat (i_step it + 1)))"
    using False r s by (simp add: steps_left_def increment_fields)
  also have "\<dots> < Suc (unat (num_values it) - unat (i_step it + 1))"
    using u by arith
  also have "\<dots> = steps_left it"
    using assms False by (simp add: steps_left_def)
  finally show ?thesis .
qed

lemma iterator_end:
  "iterator r RANGE_TYPE_END = Some e \<Longrightarrow> it_type e = RANGE_TYPE_END \<and> range e = r"
  by (auto simp: iterator_def update_type_def Let_def split: Option.bind_splits if_splits)

lemma RangeType_eq_refl: "numValues r \<noteq> None \<Longrightarrow> RangeType_eq True r r = Some True"
  by (auto simp: RangeType_eq_def)

lemma iterator_defined: "(iterator r t \<noteq> None) = (numValues r \<noteq> None)"
  by (auto simp: iterator_def split: Option.bind_splits)

lemma iterator_ne_end:
  assumes "iterator (range it) RANGE_TYPE_END = Some e"
  shows "iterator_ne it e = Some (it_type it \<noteq> RANGE_TYPE_END)"
proof -
  have e: "it_type e = RANGE_TYPE_END" "range e = range it"
    using iterator_end [OF assms] by simp_all
  have "numValues (range it) \<noteq> None"
    using assms iterator_defined [of "range it" RANGE_TYPE_END] by simp
  then have "RangeType_eq True (range it) (range it) = Some True"
    by (rule RangeType_eq_refl)
  then show ?thesis
    using e by (simp add: iterator_ne_def iterator_eq_def)
qed

section \<open>Characters from code points\<close>

text \<open>
  GLib's \<^verbatim>\<open>g_unichar_validate\<close> and \<^verbatim>\<open>g_unichar_to_utf8\<close> (the loop that writes the
  continuation bytes from the last one down is \<open>utf8_tail\<close>), and \<^verbatim>\<open>std::string(buf)\<close>,
  which reads the zero-initialised buffer up to its first zero byte.
\<close>

definition g_unichar_validate :: "uint32_t \<Rightarrow> bool" where
  "g_unichar_validate ch = (ch < 0x110000 \<and> (ch AND 0xFFFFF800) \<noteq> 0xD800)"

definition gchar :: "uint32_t \<Rightarrow> char" where
  "gchar w = char_of (unat w)"

function utf8_tail :: "nat \<Rightarrow> uint32_t \<Rightarrow> string \<Rightarrow> uint32_t \<times> string" where
  "utf8_tail i c outbuf =
     (if i = 0 then (c, outbuf)
      else utf8_tail (i - 1) (drop_bit 6 c) (gchar ((c AND 0x3f) OR 0x80) # outbuf))"
  by pat_completeness auto
termination
  by (relation "measure (\<lambda>(i, c, outbuf). i)") auto

declare utf8_tail.simps [simp del]

definition g_unichar_to_utf8 :: "uint32_t \<Rightarrow> string" where
  "g_unichar_to_utf8 c =
     (let (first, len) =
        (if c < 0x80 then (0, 1 :: nat)
         else if c < 0x800 then (0xc0, 2)
         else if c < 0x10000 then (0xe0, 3)
         else if c < 0x200000 then (0xf0, 4)
         else if c < 0x4000000 then (0xf8, 5)
         else (0xfc, 6));
          (c', tail) = utf8_tail (len - 1) c []
      in gchar (c' OR first) # tail)"

definition c_string :: "string \<Rightarrow> string" where
  "c_string buf = takeWhile (\<lambda>ch. ch \<noteq> CHR 0x00) buf"

text \<open>
  \<^verbatim>\<open>chr_visitor\<close> on a double. The initialisation \<^verbatim>\<open>const gunichar c = v\<close> is an
  implicit conversion to a 32-bit unsigned integer.
\<close>

definition chr_double :: "double \<Rightarrow> string option" where
  "chr_double v =
     (if d_gt v 0 then
        (case double_to_uint32 v of
           None \<Rightarrow> None
         | Some c \<Rightarrow> Some (if g_unichar_validate c \<and> c \<noteq> 0 then c_string (g_unichar_to_utf8 c) else []))
      else Some [])"

text \<open>
  The loop of \<^verbatim>\<open>chr_visitor\<close> on a range:
  \<^verbatim>\<open>for (it = v->begin(); it != v->end(); it++) stream << Value(*it).chrString()\<close>.
\<close>

function chr_range_loop :: "range_iterator \<Rightarrow> string \<Rightarrow> string option" where
  "chr_range_loop it stream =
     (case iterator (range it) RANGE_TYPE_END of
        None \<Rightarrow> None
      | Some e \<Rightarrow>
          (case iterator_ne it e of
             None \<Rightarrow> None
           | Some continue \<Rightarrow>
               if continue then
                 (case chr_double (val it) of
                    None \<Rightarrow> None
                  | Some s \<Rightarrow> chr_range_loop (increment it) (stream @ s))
               else Some stream))"
  by pat_completeness auto
termination
proof (relation "measure (\<lambda>(it, stream). steps_left it)")
  show "wf (measure (\<lambda>(it, stream). steps_left it))"
    by simp
next
  fix it :: range_iterator and stream e continue s
  assume "iterator (range it) RANGE_TYPE_END = Some e" "iterator_ne it e = Some continue" "continue"
  then have "it_type it \<noteq> RANGE_TYPE_END"
    using iterator_ne_end by fastforce
  then show "((increment it, stream @ s), (it, stream)) \<in> measure (\<lambda>(it, stream). steps_left it)"
    by (simp add: steps_left_decreases)
qed

declare chr_range_loop.simps [simp del]

text \<open>
  A message handed to \<^verbatim>\<open>PRINTB\<close>: the format string and the arguments. The functions
  that print return the messages printed, in order, next to their result.
\<close>

datatype message = Message string "nat list"

text \<open>The warning of \<^verbatim>\<open>chr_visitor\<close> on a range.\<close>

definition too_many_elements :: "uint32_t \<Rightarrow> message" where
  "too_many_elements steps =
     Message ''WARNING: Bad range parameter in for statement: too many elements (%lu).''
       [unat steps]"

definition chr_range :: "RangeType \<Rightarrow> (string \<times> message list) option" where
  "chr_range v =
     (case numValues v of
        None \<Rightarrow> None
      | Some steps \<Rightarrow>
          if MAX_RANGE_STEPS \<le> steps then
            Some ([], [too_many_elements steps])
          else
            (case iterator v RANGE_TYPE_BEGIN of
               None \<Rightarrow> None
             | Some it \<Rightarrow> map_option (\<lambda>s. (s, [])) (chr_range_loop it [])))"

fun chrString :: "Value \<Rightarrow> (string \<times> message list) option"
  and chr_vector :: "Value list \<Rightarrow> (string \<times> message list) option" where
  "chrString (VNumber v) = map_option (\<lambda>s. (s, [])) (chr_double v)"
| "chrString (VVector v) = chr_vector v"
| "chrString (VRange v) = chr_range v"
| "chrString _ = Some ([], [])"
| "chr_vector [] = Some ([], [])"
| "chr_vector (x # xs) =
     (case chrString x of
        None \<Rightarrow> None
      | Some (s, w) \<Rightarrow>
          (case chr_vector xs of
             None \<Rightarrow> None
           | Some (s', w') \<Rightarrow> Some (s @ s', w @ w')))"

text \<open>
  The values a range with \<open>n\<close> values produces when iterated: none when the step is
  zero, else \<open>begin_val\<close> and then \<open>begin_val + step_val * j\<close> for \<open>j = 1, ..., n - 1\<close>.
\<close>

definition nth_value :: "RangeType \<Rightarrow> uint32_t \<Rightarrow> double" where
  "nth_value r k =
     (if k = 0 then begin_val r
      else d_add (begin_val r) (d_mul (step_val r) (double_of_uint32 k)))"

definition range_values :: "RangeType \<Rightarrow> uint32_t \<Rightarrow> double list" where
  "range_values r n =
     (if d_eq (step_val r) 0 then []
      else map (\<lambda>j. nth_value r (word_of_nat j)) [0..<unat n])"

definition state_at :: "RangeType \<Rightarrow> uint32_t \<Rightarrow> uint32_t \<Rightarrow> range_iterator" where
  "state_at r n k =
     \<lparr>range = r, val = nth_value r k,
      it_type = (if k < n then RANGE_TYPE_BEGIN else RANGE_TYPE_END),
      num_values = n, i_step = k\<rparr>"

lemma state_at_simps [simp]:
  "range (state_at r n k) = r"
  "val (state_at r n k) = nth_value r k"
  "it_type (state_at r n k) = (if k < n then RANGE_TYPE_BEGIN else RANGE_TYPE_END)"
  "num_values (state_at r n k) = n"
  "i_step (state_at r n k) = k"
  by (simp_all add: state_at_def)

lemma numValues_nan:
  "isnan (begin_val r) \<or> isnan (end_val r) \<or> isnan (step_val r) \<Longrightarrow> numValues r = Some 0"
  by (simp add: numValues_def)

lemma word_succ_neq_0: "(k :: uint32_t) < n \<Longrightarrow> k + 1 \<noteq> 0"
  using word_succ_lt [of k n] by (metis Zero_not_Suc unat_0)

lemma increment_state_at:
  assumes "k < n" "\<not> d_eq (step_val r) 0"
    "\<not> (isnan (begin_val r) \<or> isnan (end_val r) \<or> isnan (step_val r))"
  shows "increment (state_at r n k) = state_at r n (k + 1)"
proof -
  have "k + 1 \<noteq> 0"
    using assms(1) by (rule word_succ_neq_0)
  then show ?thesis
    using assms by (auto simp: increment_def state_at_def update_type_def nth_value_def Let_def
        not_less)
qed

lemma begin_state_at:
  assumes "numValues r = Some n" "\<not> d_eq (step_val r) 0"
  shows "iterator r RANGE_TYPE_BEGIN = Some (state_at r n 0)"
proof (cases "isnan (begin_val r) \<or> isnan (end_val r) \<or> isnan (step_val r)")
  case True
  then have "n = 0"
    using assms(1) numValues_nan [of r] by simp
  then show ?thesis
    using assms True by (auto simp: iterator_def state_at_def update_type_def nth_value_def Let_def)
next
  case False
  then show ?thesis
    using assms
    by (auto simp: iterator_def state_at_def update_type_def nth_value_def Let_def not_less
        word_gt_0)
qed

fun chr_concat :: "double list \<Rightarrow> string option" where
  "chr_concat [] = Some []"
| "chr_concat (v # vs) =
     (case chr_double v of
        None \<Rightarrow> None
      | Some s \<Rightarrow> map_option ((@) s) (chr_concat vs))"

lemma chr_range_loop_state_at:
  assumes nv: "numValues r = Some n" and step: "\<not> d_eq (step_val r) 0"
  shows "chr_range_loop (state_at r n k) acc
           = map_option ((@) acc)
               (chr_concat (map (\<lambda>j. nth_value r (word_of_nat j)) [unat k..<unat n]))"
proof (induction "unat n - unat k" arbitrary: k acc)
  case 0
  then have ge: "\<not> k < n"
    by (simp add: word_less_nat_alt)
  obtain e where e: "iterator r RANGE_TYPE_END = Some e"
    using nv iterator_defined [of r RANGE_TYPE_END] by auto
  have "iterator_ne (state_at r n k) e = Some False"
    using iterator_ne_end [of "state_at r n k" e] e ge by simp
  then have loop: "chr_range_loop (state_at r n k) acc = Some acc"
    using e by (subst chr_range_loop.simps) simp
  have "[unat k..<unat n] = []"
    using 0 by simp
  then have "chr_concat (map (\<lambda>j. nth_value r (word_of_nat j)) [unat k..<unat n]) = Some []"
    by (simp only: list.map chr_concat.simps)
  then show ?case
    unfolding loop by simp
next
  case (Suc m)
  then have lt: "k < n"
    by (simp add: word_less_nat_alt)
  have nonan: "\<not> (isnan (begin_val r) \<or> isnan (end_val r) \<or> isnan (step_val r))"
    using nv lt numValues_nan [of r] by auto
  obtain e where e: "iterator r RANGE_TYPE_END = Some e"
    using nv iterator_defined [of r RANGE_TYPE_END] by auto
  have ne: "iterator_ne (state_at r n k) e = Some True"
    using iterator_ne_end [of "state_at r n k" e] e lt by simp
  have suc: "unat (k + 1) = Suc (unat k)"
    using lt by (rule word_succ_lt)
  have m: "m = unat n - unat (k + 1)"
    using Suc(2) suc by simp
  have inc: "increment (state_at r n k) = state_at r n (k + 1)"
    using lt step nonan by (rule increment_state_at)
  have list: "[unat k..<unat n] = unat k # [unat (k + 1)..<unat n]"
    using lt suc by (simp add: word_less_nat_alt upt_conv_Cons)
  have unfold: "chr_range_loop (state_at r n k) acc =
      (case chr_double (nth_value r k) of
         None \<Rightarrow> None
       | Some s \<Rightarrow> chr_range_loop (state_at r n (k + 1)) (acc @ s))"
    using e ne inc by (subst chr_range_loop.simps) (simp cong: option.case_cong)
  show ?case
  proof (cases "chr_double (nth_value r k)")
    case None
    then show ?thesis
      unfolding unfold list by simp
  next
    case (Some s)
    have "chr_range_loop (state_at r n (k + 1)) (acc @ s)
            = map_option ((@) (acc @ s))
                (chr_concat (map (\<lambda>j. nth_value r (word_of_nat j)) [unat (k + 1)..<unat n]))"
      using m by (rule Suc(1))
    moreover have "(@) (acc @ s) = (\<lambda>x. acc @ s @ x)"
      by (rule ext) simp
    ultimately show ?thesis
      unfolding unfold list using Some by (simp add: option.map_comp comp_def)
  qed
qed

lemma chr_range_loop_step_zero:
  assumes nv: "numValues r = Some n" and step: "d_eq (step_val r) 0"
  shows "\<exists>it. iterator r RANGE_TYPE_BEGIN = Some it \<and> chr_range_loop it acc = Some acc"
proof -
  obtain it where it: "iterator r RANGE_TYPE_BEGIN = Some it"
    using nv iterator_defined [of r RANGE_TYPE_BEGIN] by auto
  have t: "it_type it = RANGE_TYPE_END" and r: "range it = r"
    using it step by (auto simp: iterator_def update_type_def Let_def split: Option.bind_splits)
  obtain e where e: "iterator r RANGE_TYPE_END = Some e"
    using nv iterator_defined [of r RANGE_TYPE_END] by auto
  have "iterator_ne it e = Some False"
    using iterator_ne_end [of it e] e t r by simp
  then have "chr_range_loop it acc = Some acc"
    using e r by (subst chr_range_loop.simps) simp
  with it show ?thesis by blast
qed

lemma chr_vector_numbers:
  "chr_vector (map VNumber vs) = map_option (\<lambda>s. (s, [])) (chr_concat vs)"
  by (induction vs) (auto split: option.splits)

lemma chr_range_small:
  assumes nv: "numValues r = Some n" and small: "\<not> MAX_RANGE_STEPS \<le> n"
  shows "chr_range r = chr_vector (map VNumber (range_values r n))"
proof (cases "d_eq (step_val r) 0")
  case True
  then show ?thesis
    using nv small chr_range_loop_step_zero [OF nv True, of "[]"]
    by (auto simp: chr_range_def range_values_def)
next
  case False
  have vals: "range_values r n = map (\<lambda>j. nth_value r (word_of_nat j)) [0..<unat n]"
    using False by (simp add: range_values_def)
  have "chr_range_loop (state_at r n 0) [] = chr_concat (range_values r n)"
    unfolding vals using chr_range_loop_state_at [OF nv False, of 0 "[]"]
    by (simp add: option.map_ident cong: option.map_cong)
  then have "chr_range r = map_option (\<lambda>s. (s, [])) (chr_concat (range_values r n))"
    using nv small begin_state_at [OF nv False] by (simp add: chr_range_def)
  then show ?thesis
    by (simp only: chr_vector_numbers)
qed

lemmas chr_defs = g_unichar_validate_def g_unichar_to_utf8_def c_string_def gchar_def
  char_of_def utf8_tail.simps bit_Suc_0_iff


text \<open>
  C5 (amended). For every range whose number of values is defined, that is for which
  \<^verbatim>\<open>numValues\<close> returns some \<open>n\<close> without converting a double of \<open>2^32\<close> or more to
  \<^verbatim>\<open>uint32_t\<close>: when \<open>n\<close> is below \<open>MAX_RANGE_STEPS\<close>, \<^verbatim>\<open>chrString\<close> is the
  concatenation, in iteration order, of the \<^verbatim>\<open>chrString\<close> of each value the range
  produces (the \<^verbatim>\<open>chrString\<close> of the vector of these values); when \<open>n\<close> is
  \<open>MAX_RANGE_STEPS\<close> or above, it is the empty string and one warning is printed.
  Nothing is stated for the ranges whose number of values is not defined.
\<close>

theorem C5_chrString_range:
  "numValues r = Some n \<Longrightarrow>
     chrString (VRange r) =
       (if MAX_RANGE_STEPS \<le> n then Some ([], [too_many_elements n])
        else chrString (VVector (map VNumber (range_values r n))))"
  using chr_range_small [of r n]
  by (simp add: chr_range_def too_many_elements_def)

lemma range_values_first:
  assumes "\<not> d_eq (step_val r) 0" "n \<noteq> 0"
  shows "\<exists>vs. range_values r n = begin_val r # vs"
proof -
  have "0 < unat n"
    using assms(2) by (simp add: unat_gt_0)
  then have "[0..<unat n] = 0 # [Suc 0..<unat n]"
    by (rule upt_conv_Cons)
  then show ?thesis
    using assms(1) by (simp add: range_values_def nth_value_def)
qed

lemma chr_vector_nonempty:
  assumes "chr_double v = Some (c # cs)"
  shows "chr_vector (VNumber v # vs) \<noteq> Some ([], w)"
  using assms by (auto split: option.splits)

theorem C5_chrString_range_witness:
  "chrString (VRange \<lparr>begin_val = lit 65 1, step_val = lit 1 1, end_val = lit 67 1\<rparr>)
     = Some (''ABC'', [])"
proof -
  let ?r = "\<lparr>begin_val = lit 65 1, step_val = lit 1 1, end_val = lit 67 1\<rparr>"
  have n: "numValues ?r = Some 3"
    by (simp add: numValues_def UINT32_MAX_def double_defs)
  have small: "\<not> MAX_RANGE_STEPS \<le> (3 :: uint32_t)"
    by (simp add: MAX_RANGE_STEPS_def)
  have v: "range_values ?r 3 = [lit 65 1, lit 66 1, lit 67 1]"
    proof -
    have idx: "[0..<unat (3 :: uint32_t)] = [0, 1, 2]"
      by (simp add: upt_rec)
    have "nth_value ?r 0 = lit 65 1" "nth_value ?r 1 = lit 66 1" "nth_value ?r 2 = lit 67 1"
      by (simp_all add: nth_value_def double_defs)
    moreover have "\<not> d_eq (step_val ?r) 0"
      by (simp add: double_defs)
    ultimately show ?thesis
      unfolding range_values_def idx by simp
  qed
  have gt: "d_gt (lit 65 1) 0" "d_gt (lit 66 1) 0" "d_gt (lit 67 1) 0"
    by (simp_all add: double_defs)
  have cv: "double_to_uint32 (lit 65 1) = Some 65" "double_to_uint32 (lit 66 1) = Some 66"
    "double_to_uint32 (lit 67 1) = Some 67"
    by (simp_all add: double_defs)
  have c: "chr_double (lit 65 1) = Some ''A''" "chr_double (lit 66 1) = Some ''B''"
    "chr_double (lit 67 1) = Some ''C''"
    using gt cv by (simp_all add: chr_double_def chr_defs)
  have "chrString (VRange ?r) = chrString (VVector (map VNumber (range_values ?r 3)))"
    using C5_chrString_range [OF n] small by simp
  then show ?thesis
    unfolding v using c by simp
qed

text \<open>
  The range \<open>[1 : 1 : 10000]\<close> has 10000 values, not more than \<open>MAX_RANGE_STEPS\<close>, and
  \<^verbatim>\<open>chrString\<close> gives the warning and the empty string, not the concatenation.
\<close>

theorem C5_chrString_range_counterexample:
  "numValues \<lparr>begin_val = lit 1 1, step_val = lit 1 1, end_val = lit 10000 1\<rparr> = Some 10000
   \<and> \<not> (MAX_RANGE_STEPS < 10000)
   \<and> chrString (VRange \<lparr>begin_val = lit 1 1, step_val = lit 1 1, end_val = lit 10000 1\<rparr>)
       = Some ([], [too_many_elements 10000])
   \<and> chrString (VRange \<lparr>begin_val = lit 1 1, step_val = lit 1 1, end_val = lit 10000 1\<rparr>)
       \<noteq> chrString (VVector (map VNumber
            (range_values \<lparr>begin_val = lit 1 1, step_val = lit 1 1, end_val = lit 10000 1\<rparr>
               10000)))"
proof -
  let ?r = "\<lparr>begin_val = lit 1 1, step_val = lit 1 1, end_val = lit 10000 1\<rparr>"
  have n: "numValues ?r = Some 10000"
    by (simp add: numValues_def UINT32_MAX_def double_defs)
  have code: "chrString (VRange ?r) = Some ([], [too_many_elements 10000])"
    using n by (simp add: chr_range_def MAX_RANGE_STEPS_def too_many_elements_def)
  have step: "\<not> d_eq (step_val ?r) 0"
    by (simp add: double_defs)
  obtain vs where v: "range_values ?r 10000 = lit 1 1 # vs"
    using range_values_first [of ?r 10000] step by auto
  have "d_gt (lit 1 1) 0" "double_to_uint32 (lit 1 1) = Some 1"
    by (simp_all add: double_defs)
  then have c: "chr_double (lit 1 1) = Some [CHR 0x01]"
    by (simp add: chr_double_def chr_defs)
  have "chrString (VVector (map VNumber (range_values ?r 10000)))
          \<noteq> Some ([], [too_many_elements 10000])"
    unfolding v using chr_vector_nonempty [OF c] by simp
  then show ?thesis
    using n code by (simp add: MAX_RANGE_STEPS_def)
qed



section \<open>Multiplication\<close>

text \<open>
  \<^verbatim>\<open>multmatvec\<close> (matrix times vector): the loop over the rows, and for each row the
  loop over its entries, which runs after the row's size has been checked against the
  vector's. \<open>None\<close> of the inner loop is its \<^verbatim>\<open>return Value()\<close>.
\<close>

fun multmatvec_inner :: "Value list \<Rightarrow> Value list \<Rightarrow> double \<Rightarrow> double option" where
  "multmatvec_inner (m # ms) (v # vs) r_e =
     (if type m \<noteq> NUMBER \<or> type v \<noteq> NUMBER then None
      else multmatvec_inner ms vs (d_add r_e (d_mul (toDouble m) (toDouble v))))"
| "multmatvec_inner _ _ r_e = Some r_e"

fun multmatvec_loop :: "Value list \<Rightarrow> Value list \<Rightarrow> Value list \<Rightarrow> Value" where
  "multmatvec_loop [] vectorvec dstv = VVector dstv"
| "multmatvec_loop (row # rows) vectorvec dstv =
     (if type row \<noteq> VECTOR \<or> length (toVector row) \<noteq> length vectorvec then VUndefined
      else (case multmatvec_inner (toVector row) vectorvec 0 of
              None \<Rightarrow> VUndefined
            | Some r_e \<Rightarrow> multmatvec_loop rows vectorvec (dstv @ [VNumber r_e])))"

definition multmatvec :: "Value list \<Rightarrow> Value list \<Rightarrow> Value" where
  "multmatvec matrixvec vectorvec = multmatvec_loop matrixvec vectorvec []"

text \<open>
  \<^verbatim>\<open>multvecmat\<close> (vector times matrix): the three warnings, the loop over the rows for
  column \<open>i\<close> (\<open>Inl\<close> is a warning followed by \<^verbatim>\<open>return Value()\<close>), the loop over the
  columns of the first row, and the function itself. Its \<^verbatim>\<open>assert\<close> and the unchecked
  access \<^verbatim>\<open>matrixvec[0]\<close> have no result (\<open>None\<close>) when they fail.
\<close>

definition not_rectangular :: "nat \<Rightarrow> message" where
  "not_rectangular j = Message ''WARNING: Matrix must be rectangular. Problem at row %lu'' [j]"

definition vector_not_numbers :: "nat \<Rightarrow> message" where
  "vector_not_numbers j =
     Message ''WARNING: Vector must contain only numbers. Problem at index %lu'' [j]"

definition matrix_not_numbers :: "nat \<Rightarrow> nat \<Rightarrow> message" where
  "matrix_not_numbers j i =
     Message ''WARNING: Matrix must contain only numbers. Problem at row %lu, col %lu'' [j, i]"

fun multvecmat_inner ::
  "Value list \<Rightarrow> Value list \<Rightarrow> nat \<Rightarrow> nat \<Rightarrow> nat \<Rightarrow> double \<Rightarrow> message + double" where
  "multvecmat_inner (v # vs) (m # ms) firstRowSize i j r_e =
     (if type m \<noteq> VECTOR \<or> length (toVector m) \<noteq> firstRowSize then Inl (not_rectangular j)
      else if type v \<noteq> NUMBER then Inl (vector_not_numbers j)
      else if type (toVector m ! i) \<noteq> NUMBER then Inl (matrix_not_numbers j i)
      else multvecmat_inner vs ms firstRowSize i (j + 1)
             (d_add r_e (d_mul (toDouble v) (toDouble (toVector m ! i)))))"
| "multvecmat_inner _ _ firstRowSize i j r_e = Inr r_e"

function multvecmat_outer ::
  "Value list \<Rightarrow> Value list \<Rightarrow> nat \<Rightarrow> nat \<Rightarrow> Value list \<Rightarrow> Value \<times> message list" where
  "multvecmat_outer vectorvec matrixvec firstRowSize i dstv =
     (if i < firstRowSize then
        (case multvecmat_inner vectorvec matrixvec firstRowSize i 0 0 of
           Inl warning \<Rightarrow> (VUndefined, [warning])
         | Inr r_e \<Rightarrow> multvecmat_outer vectorvec matrixvec firstRowSize (i + 1) (dstv @ [VNumber r_e]))
      else (VVector dstv, []))"
  by pat_completeness auto
termination
  by (relation "measure (\<lambda>(vectorvec, matrixvec, firstRowSize, i, dstv). firstRowSize - i)") auto

declare multvecmat_outer.simps [simp del]

definition multvecmat :: "Value list \<Rightarrow> Value list \<Rightarrow> (Value \<times> message list) option" where
  "multvecmat vectorvec matrixvec =
     (if length vectorvec \<noteq> length matrixvec then None
      else (case matrixvec of
              [] \<Rightarrow> None
            | row0 # _ \<Rightarrow>
                Some (multvecmat_outer vectorvec matrixvec (length (toVector row0)) 0 [])))"

text \<open>
  \<^verbatim>\<open>multvecvec\<close> (dot product): \<^verbatim>\<open>vec2[i]\<close> is an unchecked access, without a result
  when \<^verbatim>\<open>vec2\<close> is the shorter vector.
\<close>

fun multvecvec_loop :: "Value list \<Rightarrow> Value list \<Rightarrow> double \<Rightarrow> Value option" where
  "multvecvec_loop [] vec2 r = Some (VNumber r)"
| "multvecvec_loop (x # xs) [] r = None"
| "multvecvec_loop (x # xs) (y # ys) r =
     (if type x \<noteq> NUMBER \<or> type y \<noteq> NUMBER then Some VUndefined
      else multvecvec_loop xs ys (d_add r (d_mul (toDouble x) (toDouble y))))"

definition multvecvec :: "Value list \<Rightarrow> Value list \<Rightarrow> Value option" where
  "multvecvec vec1 vec2 = multvecvec_loop vec1 vec2 0"

text \<open>
  The loop of \<^verbatim>\<open>Value::operator*\<close> for matrix times matrix, with the rows pushed and
  the warnings printed so far; \<open>mul_vectors\<close> is the branch of the operator for two
  vectors.
\<close>

fun matmat_loop ::
  "Value list \<Rightarrow> Value list \<Rightarrow> Value list \<Rightarrow> message list \<Rightarrow> (Value \<times> message list) option" where
  "matmat_loop [] vec2 dstv printed = Some (VVector dstv, printed)"
| "matmat_loop (srcrow # rows) vec2 dstv printed =
     (if length (toVector srcrow) \<noteq> length vec2 then Some (VUndefined, printed)
      else (case multvecmat (toVector srcrow) vec2 of
              None \<Rightarrow> None
            | Some (row, warnings) \<Rightarrow> matmat_loop rows vec2 (dstv @ [row]) (printed @ warnings)))"

definition mul_vectors :: "Value list \<Rightarrow> Value list \<Rightarrow> (Value \<times> message list) option" where
  "mul_vectors vec1 vec2 =
     (if vec1 = [] \<or> vec2 = [] then Some (VUndefined, [])
      else if type (hd vec1) = NUMBER then
        (if type (hd vec2) = NUMBER then
           (if length vec1 = length vec2 then map_option (\<lambda>v. (v, [])) (multvecvec vec1 vec2)
            else Some (VUndefined, []))
         else if type (hd vec2) = VECTOR then
           (if length vec1 = length vec2 then multvecmat vec1 vec2 else Some (VUndefined, []))
         else Some (VUndefined, []))
      else if type (hd vec1) = VECTOR then
        (if type (hd vec2) = NUMBER then
           (if length (toVector (hd vec1)) = length vec2 then Some (multmatvec vec1 vec2, [])
            else Some (VUndefined, []))
         else if type (hd vec2) = VECTOR then
           (if length (toVector (hd vec1)) = length vec2 then matmat_loop vec1 vec2 [] []
            else Some (VUndefined, []))
         else Some (VUndefined, []))
      else Some (VUndefined, []))"

text \<open>
  \<^verbatim>\<open>Value::operator*\<close> and \<^verbatim>\<open>multvecnum\<close> (a loop over the vector, which multiplies
  each element by the number with the operator itself).
\<close>

function (sequential) Value_mul :: "Value \<Rightarrow> Value \<Rightarrow> (Value \<times> message list) option"
  and multvecnum :: "Value list \<Rightarrow> Value \<Rightarrow> Value list \<Rightarrow> message list \<Rightarrow> (Value \<times> message list) option"
  where
  "Value_mul (VNumber a) (VNumber b) = Some (VNumber (d_mul a b), [])"
| "Value_mul (VNumber a) (VVector v) = multvecnum v (VNumber a) [] []"
| "Value_mul (VVector v) (VNumber b) = multvecnum v (VNumber b) [] []"
| "Value_mul (VVector vec1) (VVector vec2) = mul_vectors vec1 vec2"
| "Value_mul _ _ = Some (VUndefined, [])"
| "multvecnum [] numval dstv printed = Some (VVector dstv, printed)"
| "multvecnum (v # vecval) numval dstv printed =
     (case Value_mul v numval of
        None \<Rightarrow> None
      | Some (p, warnings) \<Rightarrow> multvecnum vecval numval (dstv @ [p]) (printed @ warnings))"
  by pat_completeness auto
termination
  by (relation "measure (\<lambda>x. case x of
          Inl (a, b) \<Rightarrow> size a + size b
        | Inr (vecval, numval, dstv, printed) \<Rightarrow> size_list size vecval + size numval)") auto

declare multvecnum.simps [simp del]

text \<open>
  Vocabulary of the statements: a vector of Numbers, a matrix row that is a vector of
  \<open>n\<close> Numbers, the sum of products accumulated from \<open>r\<close> in index order, a column.
\<close>

definition all_numbers :: "Value list \<Rightarrow> bool" where
  "all_numbers xs = list_all (\<lambda>x. type x = NUMBER) xs"

definition number_row :: "nat \<Rightarrow> Value \<Rightarrow> bool" where
  "number_row n row = (type row = VECTOR \<and> length (toVector row) = n \<and> all_numbers (toVector row))"

fun dot :: "Value list \<Rightarrow> Value list \<Rightarrow> double \<Rightarrow> double" where
  "dot (x # xs) (y # ys) r = dot xs ys (d_add r (d_mul (toDouble x) (toDouble y)))"
| "dot _ _ r = r"

definition column :: "Value list \<Rightarrow> nat \<Rightarrow> Value list" where
  "column matrixvec i = map (\<lambda>row. toVector row ! i) matrixvec"

definition multvecmat_value :: "Value list \<Rightarrow> Value list \<Rightarrow> Value" where
  "multvecmat_value vectorvec matrixvec =
     (case multvecmat vectorvec matrixvec of None \<Rightarrow> VUndefined | Some (row, warnings) \<Rightarrow> row)"

lemma all_numbers_simps [simp]:
  "all_numbers [] = True"
  "all_numbers (x # xs) = (type x = NUMBER \<and> all_numbers xs)"
  by (simp_all add: all_numbers_def)

lemma multvecvec_loop_dot:
  "length xs = length ys \<Longrightarrow>
     multvecvec_loop xs ys r
       = Some (if all_numbers xs \<and> all_numbers ys then VNumber (dot xs ys r) else VUndefined)"
  by (induction xs ys arbitrary: r rule: list_induct2) auto

lemma multmatvec_inner_dot:
  "length row = length v \<Longrightarrow>
     multmatvec_inner row v r
       = (if all_numbers row \<and> all_numbers v then Some (dot row v r) else None)"
  by (induction row v arbitrary: r rule: list_induct2) auto

lemma multmatvec_loop_rows:
  "multmatvec_loop M v dstv =
     (if list_all (number_row (length v)) M \<and> (M = [] \<or> all_numbers v)
      then VVector (dstv @ map (\<lambda>row. VNumber (dot (toVector row) v 0)) M)
      else VUndefined)"
proof (induction M arbitrary: dstv)
  case Nil
  show ?case by simp
next
  case (Cons row rows)
  show ?case
  proof (cases "type row = VECTOR \<and> length (toVector row) = length v")
    case False
    then show ?thesis by (auto simp: number_row_def)
  next
    case True
    then have len: "length (toVector row) = length v" by simp
    show ?thesis
      using True Cons.IH by (auto simp: number_row_def multmatvec_inner_dot [OF len])
  qed
qed

definition good_entry :: "nat \<Rightarrow> nat \<Rightarrow> Value \<Rightarrow> bool" where
  "good_entry n i row =
     (type row = VECTOR \<and> length (toVector row) = n \<and> type (toVector row ! i) = NUMBER)"

definition good_column :: "Value list \<Rightarrow> Value list \<Rightarrow> nat \<Rightarrow> nat \<Rightarrow> bool" where
  "good_column v M n i = (all_numbers v \<and> list_all (good_entry n i) M)"

lemma multvecmat_inner_good:
  "length v = length M \<Longrightarrow> good_column v M n i \<Longrightarrow>
     multvecmat_inner v M n i j r = Inr (dot v (column M i) r)"
  by (induction v M arbitrary: j r rule: list_induct2)
    (auto simp: good_column_def good_entry_def column_def)

lemma multvecmat_inner_bad:
  "length v = length M \<Longrightarrow> \<not> good_column v M n i \<Longrightarrow>
     \<exists>w. multvecmat_inner v M n i j r = Inl w"
  by (induction v M arbitrary: j r rule: list_induct2)
    (auto simp: good_column_def good_entry_def)

lemma multvecmat_outer_good:
  assumes "length v = length M"
  shows "(\<And>k. i \<le> k \<Longrightarrow> k < n \<Longrightarrow> good_column v M n k) \<Longrightarrow>
     multvecmat_outer v M n i dstv
       = (VVector (dstv @ map (\<lambda>k. VNumber (dot v (column M k) 0)) [i..<n]), [])"
proof (induction "n - i" arbitrary: i dstv)
  case 0
  then show ?case
    by (subst multvecmat_outer.simps) simp
next
  case (Suc m)
  then have lt: "i < n" by simp
  have g: "good_column v M n i"
    using Suc.prems lt by simp
  have rest: "multvecmat_outer v M n (i + 1) (dstv @ [VNumber (dot v (column M i) 0)])
        = (VVector ((dstv @ [VNumber (dot v (column M i) 0)])
             @ map (\<lambda>k. VNumber (dot v (column M k) 0)) [i + 1..<n]), [])"
    using Suc.hyps(2) Suc.prems by (intro Suc.hyps(1)) simp_all
  show ?case
    using lt rest multvecmat_inner_good [OF assms g]
    by (subst multvecmat_outer.simps) (simp add: upt_conv_Cons)
qed

lemma multvecmat_outer_bad:
  assumes "length v = length M"
  shows "i \<le> k \<Longrightarrow> k < n \<Longrightarrow> \<not> good_column v M n k \<Longrightarrow>
     \<exists>w. multvecmat_outer v M n i dstv = (VUndefined, [w])"
proof (induction "n - i" arbitrary: i dstv)
  case 0
  then show ?case by simp
next
  case (Suc m)
  then have lt: "i < n" by simp
  show ?case
  proof (cases "good_column v M n i")
    case False
    then obtain w where "multvecmat_inner v M n i 0 0 = Inl w"
      using multvecmat_inner_bad [OF assms] by blast
    then show ?thesis
      using lt by (subst multvecmat_outer.simps) simp
  next
    case True
    then have "k \<noteq> i" using Suc.prems by auto
    then have "i + 1 \<le> k" using Suc.prems by simp
    moreover have "m = n - (i + 1)" using Suc.hyps(2) by simp
    ultimately obtain w where
      "multvecmat_outer v M n (i + 1) (dstv @ [VNumber (dot v (column M i) 0)]) = (VUndefined, [w])"
      using Suc.hyps(1) Suc.prems by blast
    then show ?thesis
      using lt multvecmat_inner_good [OF assms True]
      by (subst multvecmat_outer.simps) simp
  qed
qed

lemma good_columns_iff:
  assumes "0 < n"
  shows "(\<forall>k < n. good_column v M n k) = (all_numbers v \<and> list_all (number_row n) M)"
proof
  assume a: "\<forall>k < n. good_column v M n k"
  then have v: "all_numbers v"
    using assms by (auto simp: good_column_def)
  have "number_row n row" if "row \<in> set M" for row
  proof -
    have e: "\<And>k. k < n \<Longrightarrow> good_entry n k row"
      using a that by (auto simp: good_column_def list_all_iff)
    then have "type row = VECTOR" "length (toVector row) = n"
      using assms by (auto simp: good_entry_def)
    moreover have "all_numbers (toVector row)"
      using e \<open>length (toVector row) = n\<close>
      by (auto simp: all_numbers_def list_all_length good_entry_def)
    ultimately show ?thesis by (simp add: number_row_def)
  qed
  then show "all_numbers v \<and> list_all (number_row n) M"
    using v by (simp add: list_all_iff)
next
  assume "all_numbers v \<and> list_all (number_row n) M"
  then show "\<forall>k < n. good_column v M n k"
    by (auto simp: good_column_def number_row_def good_entry_def all_numbers_def list_all_iff
        list_all_length)
qed

lemma multvecmat_result:
  assumes len: "length v = length M" and M: "M \<noteq> []" and n: "n = length (toVector (hd M))"
  shows "n = 0 \<Longrightarrow> multvecmat v M = Some (VVector [], [])"
    and "0 < n \<Longrightarrow> all_numbers v \<and> list_all (number_row n) M \<Longrightarrow>
          multvecmat v M = Some (VVector (map (\<lambda>k. VNumber (dot v (column M k) 0)) [0..<n]), [])"
    and "0 < n \<Longrightarrow> \<not> (all_numbers v \<and> list_all (number_row n) M) \<Longrightarrow>
          \<exists>w. multvecmat v M = Some (VUndefined, [w])"
proof -
  obtain row0 rest where M': "M = row0 # rest"
    using M by (cases M) auto
  have def: "multvecmat v M = Some (multvecmat_outer v M n 0 [])"
    using len n by (simp add: multvecmat_def M')
  show "n = 0 \<Longrightarrow> multvecmat v M = Some (VVector [], [])"
    unfolding def by (subst multvecmat_outer.simps) simp
  show "0 < n \<Longrightarrow> all_numbers v \<and> list_all (number_row n) M \<Longrightarrow>
          multvecmat v M = Some (VVector (map (\<lambda>k. VNumber (dot v (column M k) 0)) [0..<n]), [])"
    unfolding def using multvecmat_outer_good [OF len, of 0 n "[]"] good_columns_iff [of n v M]
    by simp
  show "0 < n \<Longrightarrow> \<not> (all_numbers v \<and> list_all (number_row n) M) \<Longrightarrow>
          \<exists>w. multvecmat v M = Some (VUndefined, [w])"
  proof -
    assume "0 < n" "\<not> (all_numbers v \<and> list_all (number_row n) M)"
    then obtain k where "k < n" "\<not> good_column v M n k"
      using good_columns_iff [of n v M] by blast
    then show ?thesis
      unfolding def using multvecmat_outer_bad [OF len, of 0 k n "[]"] by simp
  qed
qed

lemma multvecmat_defined: "length v = length M \<Longrightarrow> M \<noteq> [] \<Longrightarrow> multvecmat v M \<noteq> None"
  by (cases M) (simp_all add: multvecmat_def)

lemma matmat_loop_defined: "vec2 \<noteq> [] \<Longrightarrow> matmat_loop rows vec2 dstv printed \<noteq> None"
proof (induction rows arbitrary: dstv printed)
  case Nil
  show ?case by simp
next
  case (Cons srcrow rows)
  show ?case
  proof (cases "length (toVector srcrow) = length vec2")
    case False
    then show ?thesis by simp
  next
    case True
    then obtain row ws where "multvecmat (toVector srcrow) vec2 = Some (row, ws)"
      using multvecmat_defined [of "toVector srcrow" vec2] Cons.prems by fastforce
    then show ?thesis
      using True Cons.IH [OF Cons.prems] by simp
  qed
qed

lemma matmat_loop_rows:
  "vec2 \<noteq> [] \<Longrightarrow> list_all (\<lambda>row. length (toVector row) = length vec2) rows \<Longrightarrow>
     \<exists>ws. matmat_loop rows vec2 dstv printed
            = Some (VVector (dstv @ map (\<lambda>row. multvecmat_value (toVector row) vec2) rows), ws)"
proof (induction rows arbitrary: dstv printed)
  case Nil
  show ?case by simp
next
  case (Cons srcrow rows)
  then have len: "length (toVector srcrow) = length vec2" by simp
  then obtain row ws where r: "multvecmat (toVector srcrow) vec2 = Some (row, ws)"
    using multvecmat_defined [of "toVector srcrow" vec2] Cons.prems by fastforce
  then have "multvecmat_value (toVector srcrow) vec2 = row"
    by (simp add: multvecmat_value_def)
  then show ?case
    using len r Cons.IH [of "dstv @ [row]" "printed @ ws"] Cons.prems by auto
qed

lemma mul_vectors_defined: "mul_vectors vec1 vec2 \<noteq> None"
  using multvecmat_defined [of vec1 vec2] matmat_loop_defined [of vec2 vec1 "[]" "[]"]
  by (auto simp: mul_vectors_def multvecvec_def multvecvec_loop_dot)

lemma Value_mul_defined:
  "Value_mul a b \<noteq> None" and "multvecnum vecval numval dstv printed \<noteq> None"
proof (induction a b and vecval numval dstv printed rule: Value_mul_multvecnum.induct)
qed (auto simp: mul_vectors_defined multvecnum.simps)

lemma matmat_loop_mismatch:
  "\<not> list_all (\<lambda>row. length (toVector row) = length vec2) rows \<Longrightarrow> vec2 \<noteq> [] \<Longrightarrow>
     \<exists>ws. matmat_loop rows vec2 dstv printed = Some (VUndefined, ws)"
proof (induction rows arbitrary: dstv printed)
  case Nil
  then show ?case by simp
next
  case (Cons srcrow rows)
  show ?case
  proof (cases "length (toVector srcrow) = length vec2")
    case False
    then show ?thesis by simp
  next
    case True
    then obtain row ws where r: "multvecmat (toVector srcrow) vec2 = Some (row, ws)"
      using multvecmat_defined [of "toVector srcrow" vec2] Cons.prems by fastforce
    have "\<not> list_all (\<lambda>row. length (toVector row) = length vec2) rows"
      using Cons.prems True by simp
    then show ?thesis
      using True r Cons.IH [of "dstv @ [row]" "printed @ ws"] Cons.prems by simp
  qed
qed

lemma multvecmat_value_bad:
  assumes "length v = length M" "M \<noteq> []" "toVector (hd M) \<noteq> []"
    "\<not> (all_numbers v \<and> list_all (number_row (length (toVector (hd M)))) M)"
  shows "multvecmat_value v M = VUndefined"
proof -
  obtain w where "multvecmat v M = Some (VUndefined, [w])"
    using multvecmat_result(3) [OF assms(1,2) refl] assms(3,4) by auto
  then show ?thesis by (simp add: multvecmat_value_def)
qed

lemma mul_dot:
  assumes "vec1 \<noteq> []" "vec2 \<noteq> []" "type (hd vec1) = NUMBER" "type (hd vec2) = NUMBER"
    "length vec1 = length vec2"
  shows "mul_vectors vec1 vec2
    = Some (if all_numbers vec1 \<and> all_numbers vec2 then VNumber (dot vec1 vec2 0) else VUndefined, [])"
  using assms by (simp add: mul_vectors_def multvecvec_def multvecvec_loop_dot)

lemma mul_empty: "vec1 = [] \<or> vec2 = [] \<Longrightarrow> mul_vectors vec1 vec2 = Some (VUndefined, [])"
  by (simp add: mul_vectors_def)

lemma mul_mismatch_number:
  assumes "vec1 \<noteq> []" "vec2 \<noteq> []" "type (hd vec1) = NUMBER" "length vec1 \<noteq> length vec2"
  shows "mul_vectors vec1 vec2 = Some (VUndefined, [])"
  using assms by (simp add: mul_vectors_def)

lemma mul_mismatch_vector:
  assumes "vec1 \<noteq> []" "vec2 \<noteq> []" "type (hd vec1) = VECTOR"
    "length (toVector (hd vec1)) \<noteq> length vec2"
  shows "mul_vectors vec1 vec2 = Some (VUndefined, [])"
  using assms by (simp add: mul_vectors_def)

lemma mul_vecmat_bad:
  assumes "vec1 \<noteq> []" "vec2 \<noteq> []" "type (hd vec1) = NUMBER" "type (hd vec2) = VECTOR"
    "length vec1 = length vec2" "toVector (hd vec2) \<noteq> []"
    "\<not> (all_numbers vec1 \<and> list_all (number_row (length (toVector (hd vec2)))) vec2)"
  shows "\<exists>w. mul_vectors vec1 vec2 = Some (VUndefined, [w])"
proof -
  have "mul_vectors vec1 vec2 = multvecmat vec1 vec2"
    using assms by (simp add: mul_vectors_def)
  then show ?thesis
    using multvecmat_result(3) [OF assms(5,2) refl] assms(6,7) by simp
qed

lemma mul_vecmat_empty_row:
  assumes "vec1 \<noteq> []" "vec2 \<noteq> []" "type (hd vec1) = NUMBER" "type (hd vec2) = VECTOR"
    "length vec1 = length vec2" "toVector (hd vec2) = []"
  shows "mul_vectors vec1 vec2 = Some (VVector [], [])"
proof -
  have "mul_vectors vec1 vec2 = multvecmat vec1 vec2"
    using assms by (simp add: mul_vectors_def)
  then show ?thesis
    using multvecmat_result(1) [OF assms(5,2) refl] assms(6) by simp
qed

lemma mul_matvec_bad:
  assumes "vec1 \<noteq> []" "vec2 \<noteq> []" "type (hd vec1) = VECTOR" "type (hd vec2) = NUMBER"
    "\<not> (list_all (number_row (length vec2)) vec1 \<and> all_numbers vec2)"
  shows "mul_vectors vec1 vec2 = Some (VUndefined, [])"
  using assms by (auto simp: mul_vectors_def multmatvec_def multmatvec_loop_rows)

lemma mul_matmat_rows:
  assumes "vec1 \<noteq> []" "vec2 \<noteq> []" "type (hd vec1) = VECTOR" "type (hd vec2) = VECTOR"
    "list_all (\<lambda>row. length (toVector row) = length vec2) vec1"
  shows "\<exists>ws. mul_vectors vec1 vec2
           = Some (VVector (map (\<lambda>row. multvecmat_value (toVector row) vec2) vec1), ws)"
proof -
  have "length (toVector (hd vec1)) = length vec2"
    using assms(1,5) by (cases vec1) simp_all
  then have "mul_vectors vec1 vec2 = matmat_loop vec1 vec2 [] []"
    using assms by (simp add: mul_vectors_def)
  then show ?thesis
    using matmat_loop_rows [OF assms(2,5), of "[]" "[]"] by simp
qed

lemma mul_matmat_mismatch:
  assumes "vec1 \<noteq> []" "vec2 \<noteq> []" "type (hd vec1) = VECTOR" "type (hd vec2) = VECTOR"
    "\<not> list_all (\<lambda>row. length (toVector row) = length vec2) vec1"
  shows "\<exists>ws. mul_vectors vec1 vec2 = Some (VUndefined, ws)"
proof (cases "length (toVector (hd vec1)) = length vec2")
  case False
  then show ?thesis
    using assms by (simp add: mul_vectors_def)
next
  case True
  then have "mul_vectors vec1 vec2 = matmat_loop vec1 vec2 [] []"
    using assms by (simp add: mul_vectors_def)
  then show ?thesis
    using matmat_loop_mismatch [OF assms(5,2), of "[]" "[]"] by simp
qed

lemma mul_matvec_2x2:
  "mul_vectors [VVector [VNumber a, VNumber b], VVector [VNumber c, VNumber d]]
       [VNumber x, VNumber y]
     = Some (VVector [VNumber (d_add (d_add 0 (d_mul a x)) (d_mul b y)),
                      VNumber (d_add (d_add 0 (d_mul c x)) (d_mul d y))], [])"
  by (simp add: mul_vectors_def multmatvec_def)

text \<open>
  The operator on two Vectors, case by case. It never aborts and never makes an
  undefined access. An empty operand or a mismatch of the lengths gives Undefined
  without a warning; two vectors of equal length that start with Numbers give the dot
  product when all elements are Numbers and Undefined otherwise; vector times matrix,
  the first row not empty, gives Undefined and one warning when a row is not a vector
  of the first row's length or an entry of the vector or the matrix is not a Number,
  and the empty vector when the first row is empty; matrix times vector gives
  Undefined, without a warning, when a row is not a vector of Numbers of the vector's
  length or the vector has an entry that is not a Number; matrix times matrix gives
  Undefined when a row of the left operand has another length than the right operand,
  and otherwise the Vector of the products of each left row with the right matrix. A
  2-by-2 matrix of Numbers times a vector of two Numbers is the vector of the two row
  sums.
\<close>

lemma mul_vectors_cases:
  "Value_mul a b \<noteq> None
   \<and> Value_mul (VVector vec1) (VVector vec2) = mul_vectors vec1 vec2
   \<and> (vec1 = [] \<or> vec2 = [] \<longrightarrow> mul_vectors vec1 vec2 = Some (VUndefined, []))
   \<and> (vec1 \<noteq> [] \<and> vec2 \<noteq> [] \<and> type (hd vec1) = NUMBER \<and> type (hd vec2) = NUMBER
        \<and> length vec1 = length vec2 \<longrightarrow>
      mul_vectors vec1 vec2
        = Some (if all_numbers vec1 \<and> all_numbers vec2 then VNumber (dot vec1 vec2 0)
                else VUndefined, []))
   \<and> (vec1 \<noteq> [] \<and> vec2 \<noteq> [] \<and> type (hd vec1) = NUMBER \<and> length vec1 \<noteq> length vec2 \<longrightarrow>
      mul_vectors vec1 vec2 = Some (VUndefined, []))
   \<and> (vec1 \<noteq> [] \<and> vec2 \<noteq> [] \<and> type (hd vec1) = VECTOR
        \<and> length (toVector (hd vec1)) \<noteq> length vec2 \<longrightarrow>
      mul_vectors vec1 vec2 = Some (VUndefined, []))
   \<and> (vec1 \<noteq> [] \<and> vec2 \<noteq> [] \<and> type (hd vec1) = NUMBER \<and> type (hd vec2) = VECTOR
        \<and> length vec1 = length vec2 \<and> toVector (hd vec2) \<noteq> []
        \<and> \<not> (all_numbers vec1 \<and> list_all (number_row (length (toVector (hd vec2)))) vec2) \<longrightarrow>
      (\<exists>w. mul_vectors vec1 vec2 = Some (VUndefined, [w])))
   \<and> (vec1 \<noteq> [] \<and> vec2 \<noteq> [] \<and> type (hd vec1) = NUMBER \<and> type (hd vec2) = VECTOR
        \<and> length vec1 = length vec2 \<and> toVector (hd vec2) = [] \<longrightarrow>
      mul_vectors vec1 vec2 = Some (VVector [], []))
   \<and> (vec1 \<noteq> [] \<and> vec2 \<noteq> [] \<and> type (hd vec1) = VECTOR \<and> type (hd vec2) = NUMBER
        \<and> \<not> (list_all (number_row (length vec2)) vec1 \<and> all_numbers vec2) \<longrightarrow>
      mul_vectors vec1 vec2 = Some (VUndefined, []))
   \<and> (vec1 \<noteq> [] \<and> vec2 \<noteq> [] \<and> type (hd vec1) = VECTOR \<and> type (hd vec2) = VECTOR
        \<and> \<not> list_all (\<lambda>row. length (toVector row) = length vec2) vec1 \<longrightarrow>
      (\<exists>ws. mul_vectors vec1 vec2 = Some (VUndefined, ws)))
   \<and> (vec1 \<noteq> [] \<and> vec2 \<noteq> [] \<and> type (hd vec1) = VECTOR \<and> type (hd vec2) = VECTOR
        \<and> list_all (\<lambda>row. length (toVector row) = length vec2) vec1 \<longrightarrow>
      (\<exists>ws. mul_vectors vec1 vec2
         = Some (VVector (map (\<lambda>row. multvecmat_value (toVector row) vec2) vec1), ws)))
   \<and> (length v = length vec2 \<and> vec2 \<noteq> [] \<and> toVector (hd vec2) \<noteq> []
        \<and> \<not> (all_numbers v \<and> list_all (number_row (length (toVector (hd vec2)))) vec2) \<longrightarrow>
      multvecmat_value v vec2 = VUndefined)
   \<and> mul_vectors [VVector [VNumber m11, VNumber m12], VVector [VNumber m21, VNumber m22]]
        [VNumber x, VNumber y]
       = Some (VVector [VNumber (d_add (d_add 0 (d_mul m11 x)) (d_mul m12 y)),
                        VNumber (d_add (d_add 0 (d_mul m21 x)) (d_mul m22 y))], [])"
proof (intro conjI impI; (elim conjE)?)
  show "Value_mul a b \<noteq> None"
    by (rule Value_mul_defined(1))
  show "Value_mul (VVector vec1) (VVector vec2) = mul_vectors vec1 vec2"
    by simp
  show "mul_vectors [VVector [VNumber m11, VNumber m12], VVector [VNumber m21, VNumber m22]]
        [VNumber x, VNumber y]
       = Some (VVector [VNumber (d_add (d_add 0 (d_mul m11 x)) (d_mul m12 y)),
                        VNumber (d_add (d_add 0 (d_mul m21 x)) (d_mul m22 y))], [])"
    by (rule mul_matvec_2x2)
qed (blast intro: mul_empty mul_dot mul_mismatch_number mul_mismatch_vector mul_vecmat_bad
    mul_vecmat_empty_row mul_matvec_bad mul_matmat_mismatch mul_matmat_rows
    multvecmat_value_bad)+

lemma mul_vectors_examples:
  "Value_mul (VVector [VNumber (lit 1 1), VNumber (lit 2 1), VNumber (lit 3 1)])
             (VVector [VNumber (lit 4 1), VNumber (lit 5 1), VNumber (lit 6 1)])
     = Some (VNumber (lit 32 1), [])
   \<and> (\<exists>w. Value_mul (VVector [VNumber 0, VNumber 0])
              (VVector [VVector [VNumber 0, VNumber 0], VVector [VNumber 0, VString ''a'']])
            = Some (VUndefined, [w]))"
proof -
  let ?u = "[VNumber (lit 1 1), VNumber (lit 2 1), VNumber (lit 3 1)]"
  let ?v = "[VNumber (lit 4 1), VNumber (lit 5 1), VNumber (lit 6 1)]"
  let ?M = "[VVector [VNumber 0, VNumber 0], VVector [VNumber 0, VString ''a'']]"
  have s: "d_add 0 (d_mul (lit 1 1) (lit 4 1)) = lit 4 1"
    "d_add (lit 4 1) (d_mul (lit 2 1) (lit 5 1)) = lit 14 1"
    "d_add (lit 14 1) (d_mul (lit 3 1) (lit 6 1)) = lit 32 1"
    by (simp_all add: double_defs)
  have "Value_mul (VVector ?u) (VVector ?v)
          = Some (if all_numbers ?u \<and> all_numbers ?v then VNumber (dot ?u ?v 0) else VUndefined, [])"
    using mul_vectors_cases [where ?vec1.0 = ?u and ?vec2.0 = ?v] by simp
  then have dot: "Value_mul (VVector ?u) (VVector ?v) = Some (VNumber (lit 32 1), [])"
    using s by simp
  have "\<exists>w. mul_vectors [VNumber 0, VNumber 0] ?M = Some (VUndefined, [w])"
    using mul_vectors_cases [where ?vec1.0 = "[VNumber 0, VNumber 0]" and ?vec2.0 = ?M]
    by (simp add: number_row_def)
  then show ?thesis
    using dot by simp
qed

text \<open>
  C2. The specification has every non-Number entry met during the computation give
  Undefined. In the product of two matrices the loop over the rows of the left
  operand returns Undefined when a row has the wrong length, but it pushes the result
  of \<^verbatim>\<open>multvecmat\<close> for the row without looking at it. So
  \<open>[[1, 2], [3, "a"]] * [[1, 2], [3, 4]]\<close> prints the warning of \<^verbatim>\<open>multvecmat\<close> and is
  the Vector \<open>[[7, 10], undef]\<close>, not Undefined, whereas the same left operand times
  the vector \<open>[1, 2]\<close>, computed by \<^verbatim>\<open>multmatvec\<close>, and its row \<open>[3, "a"]\<close> times
  the same matrix, computed by \<^verbatim>\<open>multvecmat\<close>, are Undefined; and for a ragged
  right operand, \<open>[[1, 2], [3, 4]] * [[1, 2], [3]]\<close>, every row is Undefined and the
  same warning is printed once for each row.
\<close>

theorem C2_matrix_product_keeps_undefined_row:
  "Value_mul
     (VVector [VVector [VNumber (lit 1 1), VNumber (lit 2 1)],
               VVector [VNumber (lit 3 1), VString ''a'']])
     (VVector [VVector [VNumber (lit 1 1), VNumber (lit 2 1)],
               VVector [VNumber (lit 3 1), VNumber (lit 4 1)]])
   = Some (VVector [VVector [VNumber (lit 7 1), VNumber (lit 10 1)], VUndefined],
           [vector_not_numbers 1])
   \<and> Value_mul
       (VVector [VVector [VNumber (lit 1 1), VNumber (lit 2 1)],
                 VVector [VNumber (lit 3 1), VString ''a'']])
       (VVector [VNumber (lit 1 1), VNumber (lit 2 1)])
     = Some (VUndefined, [])
   \<and> Value_mul
       (VVector [VNumber (lit 3 1), VString ''a''])
       (VVector [VVector [VNumber (lit 1 1), VNumber (lit 2 1)],
                 VVector [VNumber (lit 3 1), VNumber (lit 4 1)]])
     = Some (VUndefined, [vector_not_numbers 1])
   \<and> Value_mul
       (VVector [VVector [VNumber (lit 1 1), VNumber (lit 2 1)],
                 VVector [VNumber (lit 3 1), VNumber (lit 4 1)]])
       (VVector [VVector [VNumber (lit 1 1), VNumber (lit 2 1)],
                 VVector [VNumber (lit 3 1)]])
     = Some (VVector [VUndefined, VUndefined], [not_rectangular 1, not_rectangular 1])"
proof -
  have a: "d_add 0 (d_mul (lit 1 1) (lit 1 1)) = lit 1 1"
     "d_add (lit 1 1) (d_mul (lit 2 1) (lit 3 1)) = lit 7 1"
     "d_add 0 (d_mul (lit 1 1) (lit 2 1)) = lit 2 1"
     "d_add (lit 2 1) (d_mul (lit 2 1) (lit 4 1)) = lit 10 1"
     "d_add 0 (d_mul (lit 3 1) (lit 1 1)) = lit 3 1"
    by (simp_all add: double_defs)
  show ?thesis
    using a
    by (simp add: mul_vectors_def multvecmat_def multvecmat_outer.simps multmatvec_def)
qed


section \<open>Indexing\<close>

text \<open>
  \<^verbatim>\<open>boost::numeric_cast<uint32_t>\<close> on a finite double: it throws (\<open>None\<close>) when the
  value is at most \<open>-1\<close> or at least \<open>2^32\<close>, and truncates towards zero otherwise.
  \<^verbatim>\<open>convert_to_uint32\<close> calls it on finite values only and keeps \<open>UINT32_MAX\<close> when it
  throws.
\<close>

definition numeric_cast_uint32 :: "double \<Rightarrow> uint32_t option" where
  "numeric_cast_uint32 s =
     (if d_le s (d_neg (lit 1 1)) then None
      else if d_ge s (lit 4294967296 1) then None
      else Some (word_of_int (trunc_of s)))"

definition convert_to_uint32 :: "double \<Rightarrow> uint32_t" where
  "convert_to_uint32 d =
     (if isfinite d then
        (case numeric_cast_uint32 d of None \<Rightarrow> UINT32_MAX | Some ret \<Rightarrow> ret)
      else UINT32_MAX)"

text \<open>
  A \<^verbatim>\<open>std::string\<close> is its bytes; \<^verbatim>\<open>c_str()\<close> is the bytes followed by a zero byte,
  and a pointer into it is an index. Reading outside of it has no defined result
  (\<open>peek\<close> gives \<open>None\<close>). GLib's \<^verbatim>\<open>g_utf8_skip\<close> table gives the length of a character
  from its first byte; \<^verbatim>\<open>g_utf8_next_char\<close>, \<^verbatim>\<open>g_utf8_strlen\<close> (with a byte limit,
  its loop is \<open>strlen_loop\<close>), \<^verbatim>\<open>g_utf8_offset_to_pointer\<close> (offsets from 0 up) and
  \<^verbatim>\<open>g_utf8_strncpy\<close> for one character into the 6-byte buffer of \<^verbatim>\<open>bracket_visitor\<close>
  follow GLib's code; the last one has no result when the terminating zero byte would
  be written behind the buffer.
\<close>

definition NUL :: char where
  "NUL = CHR 0x00"

definition c_str :: "string \<Rightarrow> string" where
  "c_str s = s @ [NUL]"

definition peek :: "string \<Rightarrow> nat \<Rightarrow> char option" where
  "peek buf p = (if p < length buf then Some (buf ! p) else None)"

definition g_utf8_skip :: "char \<Rightarrow> nat" where
  "g_utf8_skip c =
     (let b = (of_char c :: nat)
      in if b < 0xC0 then 1 else if b < 0xE0 then 2 else if b < 0xF0 then 3
         else if b < 0xF8 then 4 else if b < 0xFC then 5 else if b < 0xFE then 6 else 1)"

definition g_utf8_next_char :: "string \<Rightarrow> nat \<Rightarrow> nat option" where
  "g_utf8_next_char buf p = (case peek buf p of None \<Rightarrow> None | Some c \<Rightarrow> Some (p + g_utf8_skip c))"

lemma g_utf8_skip_pos: "0 < g_utf8_skip c"
  by (simp add: g_utf8_skip_def Let_def)

function strlen_loop :: "string \<Rightarrow> nat \<Rightarrow> nat \<Rightarrow> nat \<Rightarrow> nat option" where
  "strlen_loop buf maxlen p len =
     (if p < maxlen then
        (case peek buf p of
           None \<Rightarrow> None
         | Some c \<Rightarrow>
             if c \<noteq> NUL then strlen_loop buf maxlen (p + g_utf8_skip c) (len + 1)
             else Some (if p \<le> maxlen then len + 1 else len))
      else Some (if p \<le> maxlen then len + 1 else len))"
  by pat_completeness auto
termination
proof (relation "measure (\<lambda>(buf, maxlen, p, len). maxlen - p)")
  fix buf :: string and maxlen p len :: nat and c :: char
  assume "p < maxlen"
  then show "((buf, maxlen, p + g_utf8_skip c, len + 1), (buf, maxlen, p, len))
               \<in> measure (\<lambda>(buf, maxlen, p, len). maxlen - p)"
    using g_utf8_skip_pos [of c] by simp
qed simp

declare strlen_loop.simps [simp del]

definition g_utf8_strlen :: "string \<Rightarrow> nat \<Rightarrow> nat option" where
  "g_utf8_strlen buf maxlen =
     (if maxlen = 0 then Some 0
      else (case peek buf 0 of
              None \<Rightarrow> None
            | Some c \<Rightarrow> if c = NUL then Some 0 else strlen_loop buf maxlen (g_utf8_skip c) 0))"

fun g_utf8_offset_to_pointer :: "string \<Rightarrow> nat \<Rightarrow> nat \<Rightarrow> nat option" where
  "g_utf8_offset_to_pointer buf s 0 = Some s"
| "g_utf8_offset_to_pointer buf s (Suc offset) =
     (case g_utf8_next_char buf s of
        None \<Rightarrow> None
      | Some s' \<Rightarrow> g_utf8_offset_to_pointer buf s' offset)"

definition g_utf8_strncpy1 :: "string \<Rightarrow> nat \<Rightarrow> string option" where
  "g_utf8_strncpy1 buf src =
     (case peek buf src of
        None \<Rightarrow> None
      | Some c \<Rightarrow>
          (let k = (if c \<noteq> NUL then g_utf8_skip c else 0)
           in if 6 \<le> k then None
              else Some (takeWhile (\<lambda>ch. ch \<noteq> NUL) (take k (drop src buf)))))"

text \<open>\<^verbatim>\<open>bracket_visitor\<close>, overload by overload, and \<^verbatim>\<open>Value::operator[]\<close>.\<close>

definition bracket_string :: "string \<Rightarrow> double \<Rightarrow> Value option" where
  "bracket_string str idx =
     (let i = convert_to_uint32 idx
      in if unat i < length str then
           (case g_utf8_strlen (c_str str) (length str) of
              None \<Rightarrow> None
            | Some len \<Rightarrow>
                if unat i < len then
                  (case g_utf8_offset_to_pointer (c_str str) 0 (unat i) of
                     None \<Rightarrow> None
                   | Some ptr \<Rightarrow> map_option VString (g_utf8_strncpy1 (c_str str) ptr))
                else Some VUndefined)
         else Some VUndefined)"

definition bracket_vector :: "Value list \<Rightarrow> double \<Rightarrow> Value" where
  "bracket_vector vec idx =
     (let i = convert_to_uint32 idx in if unat i < length vec then vec ! unat i else VUndefined)"

definition bracket_range :: "RangeType \<Rightarrow> double \<Rightarrow> Value" where
  "bracket_range r idx =
     (let i = convert_to_uint32 idx
      in if i = 0 then VNumber (begin_val r)
         else if i = 1 then VNumber (step_val r)
         else if i = 2 then VNumber (end_val r)
         else VUndefined)"

fun Value_index :: "Value \<Rightarrow> Value \<Rightarrow> Value option" where
  "Value_index (VString str) (VNumber idx) = bracket_string str idx"
| "Value_index (VVector vec) (VNumber idx) = Some (bracket_vector vec idx)"
| "Value_index (VRange r) (VNumber idx) = Some (bracket_range r idx)"
| "Value_index _ _ = Some VUndefined"

text \<open>
  The characters of a string, as \<^verbatim>\<open>utf8_split\<close> enumerates them: each one the bytes
  from a first byte up to the next first byte. A string is complete when it has no
  zero byte and each of its characters has the length its first byte announces, below
  6 bytes; UTF-8 text without zero bytes is complete.
\<close>

function utf8_chars :: "string \<Rightarrow> string list" where
  "utf8_chars [] = []"
| "utf8_chars (c # cs) = take (g_utf8_skip c) (c # cs) # utf8_chars (drop (g_utf8_skip c) (c # cs))"
  by pat_completeness auto
termination
proof (relation "measure length")
  fix c :: char and cs :: string
  show "(drop (g_utf8_skip c) (c # cs), c # cs) \<in> measure length"
    using g_utf8_skip_pos [of c] by simp
qed simp

definition utf8_complete :: "string \<Rightarrow> bool" where
  "utf8_complete s =
     (NUL \<notin> set s \<and> list_all (\<lambda>ch. length ch = g_utf8_skip (hd ch) \<and> length ch < 6) (utf8_chars s))"

declare utf8_chars.simps(2) [simp del]

lemma utf8_chars_Cons:
  "utf8_chars (c # cs)
     = take (g_utf8_skip c) (c # cs) # utf8_chars (drop (g_utf8_skip c) (c # cs))"
  by (rule utf8_chars.simps(2))

lemma hd_take_skip: "hd (take (g_utf8_skip c) (c # cs)) = c"
  using g_utf8_skip_pos [of c] by (cases "g_utf8_skip c") simp_all

lemma utf8_complete_Nil: "utf8_complete []"
  by (simp add: utf8_complete_def)

lemma utf8_complete_Cons:
  assumes "utf8_complete (c # cs)"
  shows "c \<noteq> NUL" "g_utf8_skip c \<le> length (c # cs)" "g_utf8_skip c < 6"
    "NUL \<notin> set (c # cs)" "utf8_complete (drop (g_utf8_skip c) (c # cs))"
proof -
  let ?k = "g_utf8_skip c"
  have nul: "NUL \<notin> set (c # cs)"
    and first: "length (take ?k (c # cs)) = g_utf8_skip (hd (take ?k (c # cs)))"
      "length (take ?k (c # cs)) < 6"
    and rest: "list_all (\<lambda>ch. length ch = g_utf8_skip (hd ch) \<and> length ch < 6)
                 (utf8_chars (drop ?k (c # cs)))"
    using assms by (simp_all add: utf8_complete_def utf8_chars_Cons)
  show "NUL \<notin> set (c # cs)" by (rule nul)
  show "c \<noteq> NUL" using nul by auto
  have len: "length (take ?k (c # cs)) = ?k"
    using first(1) by (simp only: hd_take_skip)
  then show "?k \<le> length (c # cs)"
    by (metis length_take min.cobounded1)
  show "?k < 6"
    using first(2) len by simp
  have "NUL \<notin> set (drop ?k (c # cs))"
    using nul by (meson in_set_dropD)
  then show "utf8_complete (drop ?k (c # cs))"
    using rest by (simp add: utf8_complete_def)
qed

lemma utf8_chars_Nil_iff: "(utf8_chars t = []) = (t = [])"
  by (cases t) (simp_all add: utf8_chars_Cons)

lemma utf8_complete_split:
  assumes "utf8_complete t" "t \<noteq> []"
  obtains chunk rest where "t = chunk @ rest" "length chunk = g_utf8_skip (hd t)"
    "length chunk < 6" "NUL \<notin> set chunk" "hd t \<noteq> NUL" "utf8_complete rest"
    "utf8_chars t = chunk # utf8_chars rest"
proof -
  obtain c cs where t: "t = c # cs"
    using assms(2) by (cases t) auto
  let ?k = "g_utf8_skip c"
  note cc = utf8_complete_Cons [OF assms(1) [unfolded t]]
  show ?thesis
  proof (rule that [of "take ?k t" "drop ?k t"])
    show "t = take ?k t @ drop ?k t" by simp
    show "length (take ?k t) = g_utf8_skip (hd t)"
      using cc(2) by (simp add: t)
    show "length (take ?k t) < 6"
      using cc(3) by (simp add: t)
    show "NUL \<notin> set (take ?k t)"
      using cc(4) unfolding t by (meson in_set_takeD)
    show "hd t \<noteq> NUL"
      using cc(1) by (simp add: t)
    show "utf8_complete (drop ?k t)"
      using cc(5) by (simp only: t)
    show "utf8_chars t = take ?k t # utf8_chars (drop ?k t)"
      unfolding t by (rule utf8_chars_Cons)
  qed
qed

lemma peek_at:
  "t \<noteq> [] \<Longrightarrow> peek (pre @ t @ [NUL]) (length pre) = Some (hd t)"
  by (cases t) (simp_all add: peek_def nth_append)

lemma strlen_loop_complete:
  "utf8_chars t = chars \<Longrightarrow> utf8_complete t \<Longrightarrow>
     strlen_loop (pre @ t @ [NUL]) (length pre + length t) (length pre) len
       = Some (len + length chars + 1)"
proof (induction chars arbitrary: t pre len)
  case Nil
  then have "t = []"
    by (simp add: utf8_chars_Nil_iff)
  then show ?case
    by (subst strlen_loop.simps) simp
next
  case (Cons ch chars)
  then have ne: "t \<noteq> []"
    by auto
  from Cons.prems(2) ne obtain chunk rest where
    sp: "t = chunk @ rest" "length chunk = g_utf8_skip (hd t)" "hd t \<noteq> NUL"
      "utf8_complete rest" "utf8_chars t = chunk # utf8_chars rest"
    by (rule utf8_complete_split)
  have chars: "utf8_chars rest = chars"
    using Cons.prems(1) sp(5) by simp
  have ih: "strlen_loop ((pre @ chunk) @ rest @ [NUL]) (length (pre @ chunk) + length rest)
              (length (pre @ chunk)) (len + 1) = Some (len + 1 + length chars + 1)"
    using chars sp(4) by (rule Cons.IH)
  have buf: "(pre @ chunk) @ rest @ [NUL] = pre @ t @ [NUL]"
    by (simp add: sp(1))
  have pos: "length (pre @ chunk) = length pre + g_utf8_skip (hd t)"
    by (simp add: sp(2))
  have lens: "length pre + g_utf8_skip (hd t) + length rest = length pre + length t"
    using sp(2) by (simp add: sp(1))
  have lt: "length pre < length pre + length t"
    using ne by simp
  have "strlen_loop (pre @ t @ [NUL]) (length pre + length t) (length pre) len
          = strlen_loop (pre @ t @ [NUL]) (length pre + length t)
              (length pre + g_utf8_skip (hd t)) (len + 1)"
    using peek_at [OF ne, of pre] sp(3) lt by (subst strlen_loop.simps) simp
  also have "\<dots> = Some (len + 1 + length chars + 1)"
    using ih unfolding buf lens pos .
  finally show ?case
    by simp
qed

lemma g_utf8_strlen_complete:
  assumes "utf8_complete s"
  shows "g_utf8_strlen (c_str s) (length s) = Some (length (utf8_chars s))"
proof (cases "s = []")
  case True
  then show ?thesis by (simp add: g_utf8_strlen_def)
next
  case False
  from assms False obtain chunk rest where
    sp: "s = chunk @ rest" "length chunk = g_utf8_skip (hd s)" "hd s \<noteq> NUL"
      "utf8_complete rest" "utf8_chars s = chunk # utf8_chars rest"
    by (rule utf8_complete_split)
  have "strlen_loop (chunk @ rest @ [NUL]) (length chunk + length rest) (length chunk) 0
          = Some (0 + length (utf8_chars rest) + 1)"
    using sp(4) by (intro strlen_loop_complete) simp_all
  moreover have "chunk @ rest @ [NUL] = c_str s" "length chunk + length rest = length s"
    by (simp_all add: sp(1) c_str_def)
  ultimately have "strlen_loop (c_str s) (length s) (g_utf8_skip (hd s)) 0
          = Some (length (utf8_chars s))"
    by (simp add: sp(2) sp(5))
  moreover have "peek (c_str s) 0 = Some (hd s)"
    using peek_at [OF False, of "[]"] by (simp add: c_str_def)
  ultimately show ?thesis
    using sp(3) False by (simp add: g_utf8_strlen_def)
qed

lemma take_prefix: "take (length xs) (xs @ ys) = xs"
  by simp

lemma g_utf8_strncpy1_complete:
  assumes "utf8_complete t" "t \<noteq> []"
  shows "g_utf8_strncpy1 (pre @ t @ [NUL]) (length pre) = Some (hd (utf8_chars t))"
proof -
  from assms obtain chunk rest where
    sp: "t = chunk @ rest" "length chunk = g_utf8_skip (hd t)" "length chunk < 6"
      "NUL \<notin> set chunk" "hd t \<noteq> NUL" "utf8_chars t = chunk # utf8_chars rest"
    by (rule utf8_complete_split)
  have "drop (length pre) (pre @ t @ [NUL]) = chunk @ (rest @ [NUL])"
    by (simp add: sp(1))
  then have "take (g_utf8_skip (hd t)) (drop (length pre) (pre @ t @ [NUL])) = chunk"
    unfolding sp(2) [symmetric] by (simp only: take_prefix)
  moreover have "takeWhile (\<lambda>ch. ch \<noteq> NUL) chunk = chunk"
    using sp(4) by (auto simp: takeWhile_eq_all_conv)
  ultimately show ?thesis
    using peek_at [OF assms(2), of pre] sp(2,3,5,6) by (simp add: g_utf8_strncpy1_def Let_def)
qed

lemma index_complete:
  "utf8_complete t \<Longrightarrow> i < length (utf8_chars t) \<Longrightarrow>
     (case g_utf8_offset_to_pointer (pre @ t @ [NUL]) (length pre) i of
        None \<Rightarrow> None
      | Some ptr \<Rightarrow> g_utf8_strncpy1 (pre @ t @ [NUL]) ptr)
     = Some (utf8_chars t ! i)"
proof (induction i arbitrary: pre t)
  case 0
  then have ne: "t \<noteq> []"
    by (auto simp: utf8_chars_Nil_iff)
  then have "utf8_chars t \<noteq> []"
    by (simp add: utf8_chars_Nil_iff)
  then have "utf8_chars t ! 0 = hd (utf8_chars t)"
    by (simp add: hd_conv_nth)
  then show ?case
    using g_utf8_strncpy1_complete [OF "0.prems"(1) ne, of pre] by simp
next
  case (Suc i)
  then have ne: "t \<noteq> []"
    by (auto simp: utf8_chars_Nil_iff)
  from Suc.prems(1) ne obtain chunk rest where
    sp: "t = chunk @ rest" "length chunk = g_utf8_skip (hd t)" "utf8_complete rest"
      "utf8_chars t = chunk # utf8_chars rest"
    by (rule utf8_complete_split)
  have i: "i < length (utf8_chars rest)"
    using Suc.prems(2) by (simp add: sp(4))
  have ih: "(case g_utf8_offset_to_pointer ((pre @ chunk) @ rest @ [NUL]) (length (pre @ chunk)) i of
           None \<Rightarrow> None
         | Some ptr \<Rightarrow> g_utf8_strncpy1 ((pre @ chunk) @ rest @ [NUL]) ptr)
        = Some (utf8_chars rest ! i)"
    using sp(3) i by (rule Suc.IH)
  have buf: "(pre @ chunk) @ rest @ [NUL] = pre @ t @ [NUL]"
    by (simp add: sp(1))
  have pos: "length (pre @ chunk) = length pre + g_utf8_skip (hd t)"
    by (simp add: sp(2))
  have next_char: "g_utf8_next_char (pre @ t @ [NUL]) (length pre)
                     = Some (length pre + g_utf8_skip (hd t))"
    using peek_at [OF ne, of pre] by (simp add: g_utf8_next_char_def)
  show ?case
    using ih unfolding buf pos using next_char by (simp add: sp(4))
qed

lemma length_utf8_chars: "length (utf8_chars s) \<le> length s"
proof (induction s rule: utf8_chars.induct)
  case 1
  show ?case by simp
next
  case (2 c cs)
  have "length (drop (g_utf8_skip c) (c # cs)) < length (c # cs)"
    using g_utf8_skip_pos [of c] by simp
  then show ?case
    using "2.IH" by (simp add: utf8_chars_Cons)
qed

lemma bracket_string_complete:
  assumes "utf8_complete s"
  shows "bracket_string s d =
     Some (if unat (convert_to_uint32 d) < length (utf8_chars s)
           then VString (utf8_chars s ! unat (convert_to_uint32 d)) else VUndefined)"
proof (cases "unat (convert_to_uint32 d) < length (utf8_chars s)")
  case True
  then have "unat (convert_to_uint32 d) < length s"
    using length_utf8_chars [of s] by simp
  moreover have "(case g_utf8_offset_to_pointer (c_str s) 0 (unat (convert_to_uint32 d)) of
        None \<Rightarrow> None
      | Some ptr \<Rightarrow> g_utf8_strncpy1 (c_str s) ptr)
     = Some (utf8_chars s ! unat (convert_to_uint32 d))"
    using index_complete [OF assms True, of "[]"] by (simp add: c_str_def cong: option.case_cong)
  ultimately show ?thesis
    using True g_utf8_strlen_complete [OF assms]
    by (auto simp: bracket_string_def Let_def split: option.splits)
next
  case False
  then show ?thesis
    using g_utf8_strlen_complete [OF assms] by (simp add: bracket_string_def Let_def)
qed

lemma mant_of_bound: "mant_of d < 2 ^ 53"
proof -
  have "mag_of d mod 2 ^ 52 < 2 ^ 52"
    by simp
  then show ?thesis
    unfolding mant_of_def by (cases "mag_of d < 2 ^ 52") simp_all
qed

lemma div_pow_bound:
  assumes "(n :: nat) < 2 ^ 53" "21 \<le> k"
  shows "n div 2 ^ k < 2 ^ 32"
proof -
  have "(2 :: nat) ^ 21 \<le> 2 ^ k"
    using assms(2) by (intro power_increasing) simp_all
  then have "(2 :: nat) ^ 32 * 2 ^ 21 \<le> 2 ^ 32 * 2 ^ k"
    by simp
  then have "n < 2 ^ 32 * 2 ^ k"
    using assms(1) by simp
  then show ?thesis
    by (rule less_mult_imp_div_less)
qed

lemma div_pow_zero:
  assumes "(n :: nat) < 2 ^ 53" "53 \<le> k"
  shows "n div 2 ^ k = 0"
proof -
  have "(2 :: nat) ^ 53 \<le> 2 ^ k"
    using assms(2) by (intro power_increasing) simp_all
  then show ?thesis
    using assms(1) by simp
qed

lemma key_minus_one: "key_of (d_neg (lit 1 1)) = - (1023 * 2 ^ 52)" "\<not> isnan (d_neg (lit 1 1))"
  by (simp_all add: double_defs)

lemma key_two_32: "key_of (lit 4294967296 1) = 1055 * 2 ^ 52" "\<not> isnan (lit 4294967296 1)"
  by (simp_all add: double_defs)

lemma trunc_in_range:
  assumes fin: "isfinite d" and lo: "\<not> d_le d (d_neg (lit 1 1))"
    and hi: "\<not> d_ge d (lit 4294967296 1)"
  shows "0 \<le> trunc_of d \<and> trunc_of d < 2 ^ 32"
proof -
  have nonan: "\<not> isnan d"
    using fin by (simp add: isfinite_def isnan_def)
  have klo: "- (1023 * 2 ^ 52) < key_of d"
    using lo nonan key_minus_one by (simp add: d_le_def)
  have khi: "key_of d < 1055 * 2 ^ 52"
    using hi nonan key_two_32 by (simp add: d_ge_def d_le_def)
  define e where "e = max 1 (mag_of d div 2 ^ 52)"
  have expo: "expo_of d = int e - 1075"
    by (simp add: expo_of_def e_def)
  show ?thesis
  proof (cases "sign_of d")
    case True
    then have "mag_of d < 1023 * 2 ^ 52"
      using klo by (simp add: key_of_def)
    then have "mag_of d div 2 ^ 52 < 1023"
      by (simp add: less_mult_imp_div_less)
    then have e: "e \<le> 1022"
      by (simp add: e_def)
    then have neg: "\<not> 0 \<le> expo_of d" and k: "53 \<le> nat (- expo_of d)"
      by (simp_all add: expo)
    have "mant_of d div 2 ^ nat (- expo_of d) = 0"
      using mant_of_bound k by (rule div_pow_zero)
    then show ?thesis
      using neg True by (simp add: trunc_of_def)
  next
    case False
    then have "mag_of d < 1055 * 2 ^ 52"
      using khi by (simp add: key_of_def)
    then have "mag_of d div 2 ^ 52 < 1055"
      by (simp add: less_mult_imp_div_less)
    then have e: "e \<le> 1054"
      by (simp add: e_def)
    then have neg: "\<not> 0 \<le> expo_of d" and k: "21 \<le> nat (- expo_of d)"
      by (simp_all add: expo)
    have "mant_of d div 2 ^ nat (- expo_of d) < 2 ^ 32"
      using mant_of_bound k by (rule div_pow_bound)
    then have "int (mant_of d div 2 ^ nat (- expo_of d)) < 2 ^ 32"
      by (metis of_nat_less_iff of_nat_numeral of_nat_power)
    then show ?thesis
      using neg False by (simp add: trunc_of_def)
  qed
qed

lemma convert_to_uint32_saturates:
  "\<not> isfinite d \<or> d_le d (d_neg (lit 1 1)) \<or> d_ge d (lit 4294967296 1)
   \<Longrightarrow> convert_to_uint32 d = UINT32_MAX"
  by (auto simp: convert_to_uint32_def numeric_cast_uint32_def)

lemma convert_to_uint32_truncates:
  assumes "isfinite d" "\<not> d_le d (d_neg (lit 1 1))" "\<not> d_ge d (lit 4294967296 1)"
  shows "uint (convert_to_uint32 d) = trunc_of d"
proof -
  have "convert_to_uint32 d = word_of_int (trunc_of d)"
    using assms by (simp add: convert_to_uint32_def numeric_cast_uint32_def)
  then show ?thesis
    using trunc_in_range [OF assms] by (simp add: uint_word_of_int take_bit_int_eq_self)
qed

lemma Value_index_not_number:
  "type i \<noteq> NUMBER \<Longrightarrow> Value_index (VString s) i = Some VUndefined"
  by (cases i) simp_all

text \<open>
  C3 (amended). \<open>s[i]\<close> is Undefined unless \<open>i\<close> is a Number. The conversion of the
  index maps NaN, the infinities, the values at most \<open>-1\<close> and the values at least
  \<open>2^32\<close> to \<open>UINT32_MAX\<close>, and truncates every other value towards zero (a negative
  value above \<open>-1\<close> becomes 0). For a complete string, \<open>s[i]\<close> is the String of exactly
  the bytes of the character at the converted position when that position is below the
  number of characters, and Undefined otherwise.
\<close>

theorem C3_string_index:
  "(type i \<noteq> NUMBER \<longrightarrow> Value_index (VString s) i = Some VUndefined)
   \<and> (\<not> isfinite d \<or> d_le d (d_neg (lit 1 1)) \<or> d_ge d (lit 4294967296 1)
        \<longrightarrow> convert_to_uint32 d = UINT32_MAX)
   \<and> (isfinite d \<and> \<not> d_le d (d_neg (lit 1 1)) \<and> \<not> d_ge d (lit 4294967296 1)
        \<longrightarrow> uint (convert_to_uint32 d) = trunc_of d)
   \<and> (utf8_complete s \<longrightarrow>
        Value_index (VString s) (VNumber d) =
          Some (if unat (convert_to_uint32 d) < length (utf8_chars s)
                then VString (utf8_chars s ! unat (convert_to_uint32 d)) else VUndefined))"
  using Value_index_not_number [of i s] convert_to_uint32_saturates [of d]
    convert_to_uint32_truncates [of d] bracket_string_complete [of s d]
  by simp

lemmas str_defs = bracket_string_def g_utf8_strlen_def strlen_loop.simps g_utf8_strncpy1_def
  g_utf8_next_char_def peek_def c_str_def NUL_def g_utf8_skip_def Let_def

lemma convert_to_uint32_examples:
  "convert_to_uint32 (d_neg (lit 1 2)) = 0"
  "convert_to_uint32 (d_neg (lit 1 1)) = UINT32_MAX"
  "convert_to_uint32 (lit 4294967296 1) = UINT32_MAX"
  "convert_to_uint32 (lit 42949672955 10) = UINT32_MAX"
  "convert_to_uint32 (lit 3 2) = 1"
  "convert_to_uint32 quiet_NaN = UINT32_MAX"
  by (simp_all add: convert_to_uint32_def numeric_cast_uint32_def UINT32_MAX_def double_defs)

theorem C3_string_index_witness:
  "Value_index (VString [CHR ''a'', CHR 0xC3, CHR 0xA9, CHR ''b'']) (VNumber (lit 1 1))
     = Some (VString [CHR 0xC3, CHR 0xA9])
   \<and> Value_index (VString [CHR ''a'', CHR 0xC3, CHR 0xA9, CHR ''b'']) (VNumber (lit 3 1))
     = Some VUndefined
   \<and> Value_index (VString ''ab'') (VBool True) = Some VUndefined
   \<and> convert_to_uint32 quiet_NaN = UINT32_MAX
   \<and> uint (convert_to_uint32 (lit 3 2)) = 1"
proof -
  let ?s = "[CHR ''a'', CHR 0xC3, CHR 0xA9, CHR ''b'']"
  have chars: "utf8_chars ?s = [''a'', [CHR 0xC3, CHR 0xA9], ''b'']"
    by (simp add: utf8_chars_Cons g_utf8_skip_def)
  then have complete: "utf8_complete ?s"
    by (simp add: utf8_complete_def NUL_def g_utf8_skip_def)
  have one: "convert_to_uint32 (lit 1 1) = 1" and three: "convert_to_uint32 (lit 3 1) = 3"
    by (simp_all add: convert_to_uint32_def numeric_cast_uint32_def double_defs)
  have a: "Value_index (VString ?s) (VNumber (lit 1 1)) = Some (VString [CHR 0xC3, CHR 0xA9])"
    using C3_string_index [of _ ?s "lit 1 1"] complete chars one by simp
  have b: "Value_index (VString ?s) (VNumber (lit 3 1)) = Some VUndefined"
    using C3_string_index [of _ ?s "lit 3 1"] complete chars three by simp
  have c: "Value_index (VString ''ab'') (VBool True) = Some VUndefined"
    using C3_string_index [of "VBool True" "''ab''"] by simp
  have nan: "\<not> isfinite quiet_NaN"
    by (simp add: double_defs)
  have d: "convert_to_uint32 quiet_NaN = UINT32_MAX"
    using C3_string_index [of _ _ quiet_NaN] nan by simp
  have fin: "isfinite (lit 3 2)" "\<not> d_le (lit 3 2) (d_neg (lit 1 1))"
    "\<not> d_ge (lit 3 2) (lit 4294967296 1)" "trunc_of (lit 3 2) = 1"
    by (simp_all add: double_defs)
  have e: "uint (convert_to_uint32 (lit 3 2)) = 1"
    using C3_string_index [of _ _ "lit 3 2"] fin by simp
  show ?thesis
    using a b c d e by simp
qed

text \<open>
  The index \<open>-0.5\<close> is negative and is converted to 0, not to \<open>UINT32_MAX\<close>:
  \<open>"ab"[-0.5]\<close> is \<open>"a"\<close>.
\<close>

theorem C3_string_index_counterexample:
  "d_lt (d_neg (lit 1 2)) 0
   \<and> convert_to_uint32 (d_neg (lit 1 2)) = 0
   \<and> convert_to_uint32 (d_neg (lit 1 2)) \<noteq> UINT32_MAX
   \<and> Value_index (VString ''ab'') (VNumber (d_neg (lit 1 2))) = Some (VString ''a'')"
proof -
  have neg: "d_lt (d_neg (lit 1 2)) 0"
    by (simp add: double_defs)
  have zero: "convert_to_uint32 (d_neg (lit 1 2)) = 0"
    by (rule convert_to_uint32_examples(1))
  have "Value_index (VString ''ab'') (VNumber (d_neg (lit 1 2))) = Some (VString ''a'')"
    using zero by (simp add: str_defs)
  then show ?thesis
    using neg zero by (simp add: UINT32_MAX_def)
qed


section \<open>Formatting a number\<close>

text \<open>
  The buffer is a \<^verbatim>\<open>char\<close> array and a position in it is an index; \<^verbatim>\<open>nullptr\<close> is
  \<open>None\<close>. \<^verbatim>\<open>memmove\<close> copies \<open>count\<close> characters from index \<open>src\<close> to index \<open>dst\<close>, and
  \<^verbatim>\<open>strchr\<close> gives the index of the first occurrence of a character before the
  terminator. \<^verbatim>\<open>trimTrailingZeroesHelper\<close> returns its \<^verbatim>\<open>int\<close> and the buffer; its
  parameter \<^verbatim>\<open>decimalpos\<close> is an index, as its one caller passes the position it has
  found.
\<close>

definition DC_EXP :: char where
  "DC_EXP = CHR ''e''"

definition DC_INF :: string where
  "DC_INF = ''inf''"

definition DC_NAN :: string where
  "DC_NAN = ''nan''"

definition DC_PRECISION_REQUESTED :: nat where
  "DC_PRECISION_REQUESTED = 6"

definition memmove :: "string \<Rightarrow> nat \<Rightarrow> nat \<Rightarrow> nat \<Rightarrow> string" where
  "memmove buffer dst src count =
     take dst buffer @ take count (drop src buffer) @ drop (dst + count) buffer"

definition strchr :: "string \<Rightarrow> char \<Rightarrow> int option" where
  "strchr buffer c =
     (if c \<in> set (c_string buffer) then Some (int (length (takeWhile (\<lambda>ch. ch \<noteq> c) buffer)))
      else None)"

function trimTrailingZeroesHelper ::
  "string \<Rightarrow> int \<Rightarrow> int \<Rightarrow> int option \<Rightarrow> int \<Rightarrow> int option \<Rightarrow> int \<times> string" where
  "trimTrailingZeroesHelper buffer pos currentpos exppos decimalpos zeropos =
     (if currentpos \<le> 0 then (0, buffer)
      else
        (let (cont1, currentpos1, buffer1) =
               (if buffer ! nat currentpos = NUL
                then (let (c, b) = trimTrailingZeroesHelper buffer pos (currentpos - 1)
                                     exppos decimalpos zeropos
                      in (c, currentpos - 1, b))
                else (1, currentpos, buffer));
             (cont2, currentpos2, buffer2) =
               (if cont1 \<noteq> 0 \<and> exppos \<noteq> None \<and> the exppos \<le> currentpos1
                then (let (c, b) = trimTrailingZeroesHelper buffer1 pos (the exppos - 1)
                                     exppos decimalpos zeropos
                      in (c, the exppos - 1, b))
                else (cont1, currentpos1, buffer1));
             (cont3, zeropos3, buffer3) =
               (if cont2 \<noteq> 0 \<and> decimalpos < currentpos2 \<and> buffer2 ! nat currentpos2 = CHR ''0''
                then (let (c, b) = trimTrailingZeroesHelper buffer2 pos (currentpos2 - 1)
                                     exppos decimalpos (Some currentpos2)
                      in (c, Some currentpos2, b))
                else (cont2, zeropos, buffer2))
         in if cont3 \<noteq> 0 \<and> zeropos3 \<noteq> None \<and> exppos \<noteq> None then
              (0, memmove buffer3
                    (nat (if the zeropos3 - 1 = decimalpos then decimalpos else the zeropos3))
                    (nat (the exppos)) (nat (pos - the exppos + 1)))
            else if cont3 \<noteq> 0 \<and> zeropos3 \<noteq> None then
              (0, buffer3[nat (if the zeropos3 - 1 = decimalpos then decimalpos else the zeropos3)
                            := NUL])
            else (0, buffer3)))"
  by pat_completeness auto
termination
  apply (relation "measure (\<lambda>(buffer, pos, currentpos, exppos, decimalpos, zeropos). nat currentpos)")
   apply simp
   apply simp
   apply (auto split: if_splits prod.splits)
  done



definition trimTrailingZeroes :: "string \<Rightarrow> int \<Rightarrow> string" where
  "trimTrailingZeroes buffer pos =
     (case strchr buffer CHR ''.'' of
        None \<Rightarrow> buffer
      | Some decimal \<Rightarrow>
          snd (trimTrailingZeroesHelper buffer pos pos (strchr buffer DC_EXP) decimal None))"


text \<open>
  \<^verbatim>\<open>DoubleConvert\<close>. A \<^verbatim>\<open>StringBuilder\<close> is the string of the characters written to
  the buffer so far, its position is their number, and \<^verbatim>\<open>Finalize\<close> writes the
  terminator after them. \<^verbatim>\<open>Double::IsSpecial\<close>, \<^verbatim>\<open>IsInfinite\<close> and \<^verbatim>\<open>IsNan\<close> read the
  exponent and the significand: all bits of the exponent are set, and the significand
  is zero for an infinity. The conversion \<^verbatim>\<open>ToPrecision\<close> of the converter \<^verbatim>\<open>dc\<close>
  belongs to the double-conversion library; \<open>dc value precision\<close> stands for the
  characters it writes, and is a parameter of \<open>DoubleConvert\<close> as the converter is one
  of \<^verbatim>\<open>DoubleConvert\<close>. The result is the string read from the buffer up to its
  terminator; what the array holds after the terminator that \<^verbatim>\<open>Finalize\<close> writes is
  never read, and is left out.
\<close>

definition IsSpecial :: "double \<Rightarrow> bool" where
  "IsSpecial d = (inf_mag \<le> mag_of d)"

definition IsInfinite :: "double \<Rightarrow> bool" where
  "IsInfinite d = (mag_of d = inf_mag)"

definition IsNan :: "double \<Rightarrow> bool" where
  "IsNan d = (inf_mag < mag_of d)"

definition HandleSpecialValues :: "double \<Rightarrow> string \<Rightarrow> bool \<times> string" where
  "HandleSpecialValues v builder =
     (if IsInfinite v then (True, (if d_lt v 0 then builder @ ''-'' else builder) @ DC_INF)
      else if IsNan v then (True, builder @ DC_NAN)
      else (False, builder))"

definition Finalize :: "string \<Rightarrow> string" where
  "Finalize builder = builder @ [NUL]"

definition DoubleConvert :: "double \<Rightarrow> (double \<Rightarrow> nat \<Rightarrow> string) \<Rightarrow> string" where
  "DoubleConvert v dc =
     (if IsSpecial v then c_string (Finalize (snd (HandleSpecialValues v [])))
      else
        (let builder = dc v DC_PRECISION_REQUESTED;
             pos = int (length builder);
             buffer = Finalize builder
         in c_string (trimTrailingZeroes buffer pos)))"

text \<open>
  What trimming makes of a text \<open>ip . fp 0\<dots>0 ex\<close> with \<open>n\<close> zeroes after a fraction
  \<open>fp\<close> that does not end with a zero, and an exponent part \<open>ex\<close> that is empty or
  starts with the exponent marker: the zeroes go, the decimal point goes with them
  when \<open>fp\<close> is empty, and \<open>ex\<close> follows immediately. \<open>decimal_text\<close> says that the
  parts are of this kind.
\<close>

definition trimmed :: "string \<Rightarrow> string \<Rightarrow> nat \<Rightarrow> string \<Rightarrow> string" where
  "trimmed ip fp n ex =
     (if n = 0 then ip @ CHR ''.'' # fp @ ex
      else if fp = [] then ip @ ex
      else ip @ CHR ''.'' # fp @ ex)"

definition decimal_text :: "string \<Rightarrow> string \<Rightarrow> string \<Rightarrow> bool" where
  "decimal_text ip fp ex \<longleftrightarrow>
     ip \<noteq> [] \<and> CHR ''.'' \<notin> set ip \<and> DC_EXP \<notin> set ip \<and> NUL \<notin> set ip
     \<and> (fp = [] \<or> last fp \<noteq> CHR ''0'') \<and> DC_EXP \<notin> set fp \<and> NUL \<notin> set fp
     \<and> (ex = [] \<or> hd ex = DC_EXP) \<and> NUL \<notin> set ex"

declare trimTrailingZeroesHelper.simps [simp del]

lemma trimTrailingZeroesHelper_done: "fst (trimTrailingZeroesHelper b p c e d z) = 0"
  apply (subst trimTrailingZeroesHelper.simps)
  apply (simp only: Let_def case_prod_unfold if_distrib [of fst] fst_conv if_cancel)
  done

lemma trimTrailingZeroesHelper_result:
  obtains b where "trimTrailingZeroesHelper buffer pos currentpos exppos decimalpos zeropos = (0, b)"
  using trimTrailingZeroesHelper_done [of buffer pos currentpos exppos decimalpos zeropos]
  by (cases "trimTrailingZeroesHelper buffer pos currentpos exppos decimalpos zeropos") simp

lemma trimTrailingZeroesHelper_start: 
  "currentpos \<le> 0 \<Longrightarrow>
     trimTrailingZeroesHelper buffer pos currentpos exppos decimalpos zeropos = (0, buffer)"
  by (subst trimTrailingZeroesHelper.simps) simp

lemma trimTrailingZeroesHelper_terminator:
  assumes "0 < currentpos" "buffer ! nat currentpos = NUL"
  shows "trimTrailingZeroesHelper buffer pos currentpos exppos decimalpos zeropos
           = trimTrailingZeroesHelper buffer pos (currentpos - 1) exppos decimalpos zeropos"
proof -
  obtain b where b:
    "trimTrailingZeroesHelper buffer pos (currentpos - 1) exppos decimalpos zeropos = (0, b)"
    by (rule trimTrailingZeroesHelper_result)
  show ?thesis
    apply (subst trimTrailingZeroesHelper.simps)
    using assms b apply simp
    done
qed

lemma trimTrailingZeroesHelper_exponent:
  assumes "0 < currentpos" "buffer ! nat currentpos \<noteq> NUL" "exppos = Some e" "e \<le> currentpos"
  shows "trimTrailingZeroesHelper buffer pos currentpos exppos decimalpos zeropos
           = trimTrailingZeroesHelper buffer pos (e - 1) exppos decimalpos zeropos"
proof -
  obtain b where b:
    "trimTrailingZeroesHelper buffer pos (e - 1) (Some e) decimalpos zeropos = (0, b)"
    by (rule trimTrailingZeroesHelper_result)
  show ?thesis
    apply (subst trimTrailingZeroesHelper.simps)
    using assms b apply simp
    done
qed

lemma trimTrailingZeroesHelper_zero:
  assumes "0 < currentpos" "buffer ! nat currentpos = CHR ''0''" "decimalpos < currentpos"
    "exppos = None \<or> currentpos < the exppos"
  shows "trimTrailingZeroesHelper buffer pos currentpos exppos decimalpos zeropos
           = trimTrailingZeroesHelper buffer pos (currentpos - 1) exppos decimalpos
               (Some currentpos)"
proof -
  obtain b where b:
    "trimTrailingZeroesHelper buffer pos (currentpos - 1) exppos decimalpos (Some currentpos)
       = (0, b)"
    by (rule trimTrailingZeroesHelper_result)
  have "buffer ! nat currentpos \<noteq> NUL"
    using assms(2) by (simp add: NUL_def)
  then show ?thesis
    apply (subst trimTrailingZeroesHelper.simps)
    using assms b apply auto
    done
qed

lemma trimTrailingZeroesHelper_other:
  assumes "0 < currentpos" "buffer ! nat currentpos \<noteq> NUL"
    "\<not> (decimalpos < currentpos \<and> buffer ! nat currentpos = CHR ''0'')"
    "exppos = None \<or> currentpos < the exppos"
  shows "trimTrailingZeroesHelper buffer pos currentpos exppos decimalpos zeropos
           = (0, case zeropos of
                   None \<Rightarrow> buffer
                 | Some z \<Rightarrow>
                     (case exppos of
                        None \<Rightarrow> buffer[nat (if z - 1 = decimalpos then decimalpos else z) := NUL]
                      | Some e \<Rightarrow>
                          memmove buffer (nat (if z - 1 = decimalpos then decimalpos else z))
                            (nat e) (nat (pos - e + 1))))"
  apply (subst trimTrailingZeroesHelper.simps)
  using assms apply (auto split: option.splits)
  done


lemma takeWhile_stop:
  "x \<notin> set xs \<Longrightarrow> takeWhile (\<lambda>y. y \<noteq> x) (xs @ x # ys) = xs"
  by (induction xs) auto

lemma c_string_append:
  "NUL \<notin> set t \<Longrightarrow> c_string (t @ NUL # rest) = t"
  using takeWhile_stop [of NUL t rest] by (simp add: c_string_def NUL_def)

lemma c_string_Cons:
  "c_string (c # t) = (if c = NUL then [] else c # c_string t)"
  by (simp add: c_string_def NUL_def)

lemma c_string_prefix:
  "NUL \<notin> set t \<Longrightarrow> c_string (t @ rest) = t @ c_string rest"
  by (induction t) (auto simp: c_string_Cons)

lemma strchr_found:
  assumes "c \<notin> set ip" "NUL \<notin> set ip" "c \<noteq> NUL"
  shows "strchr (ip @ c # rest) c = Some (int (length ip))"
proof -
  have "c \<in> set (c_string (ip @ c # rest))"
    using assms(2,3) by (simp add: c_string_prefix c_string_Cons)
  then show ?thesis
    using takeWhile_stop [OF assms(1), of rest] by (simp add: strchr_def)
qed

lemma strchr_absent:
  "c \<notin> set t \<Longrightarrow> NUL \<notin> set t \<Longrightarrow> strchr (t @ NUL # rest) c = None"
  by (simp add: strchr_def c_string_append)

lemma zero_walk:
  assumes "buffer = ip @ CHR ''.'' # fp @ replicate n CHR ''0'' @ rest"
    "exppos = None \<or> int (length ip + length fp + n) < the exppos" "ip \<noteq> []" "j \<le> n"
  shows "trimTrailingZeroesHelper buffer pos (int (length ip + length fp + j)) exppos
             (int (length ip)) zeropos
           = trimTrailingZeroesHelper buffer pos (int (length ip + length fp)) exppos
               (int (length ip))
               (if j = 0 then zeropos else Some (int (length ip + length fp + 1)))"
  using assms(4)
proof (induction j arbitrary: zeropos)
  case 0
  then show ?case by simp
next
  case (Suc j)
  let ?cur = "int (length ip + length fp + Suc j)"
  have "buffer = (ip @ CHR ''.'' # fp) @ replicate n CHR ''0'' @ rest"
    using assms(1) by simp
  moreover have "nat ?cur = length (ip @ CHR ''.'' # fp) + j"
    by simp
  ultimately have "buffer ! nat ?cur = (replicate n CHR ''0'' @ rest) ! j"
    by (simp only: nth_append_length_plus)
  then have ch: "buffer ! nat ?cur = CHR ''0''"
    using Suc.prems by (simp add: nth_append)
  have "trimTrailingZeroesHelper buffer pos ?cur exppos (int (length ip)) zeropos
          = trimTrailingZeroesHelper buffer pos (?cur - 1) exppos (int (length ip)) (Some ?cur)"
    using ch assms(2) Suc.prems
    by (intro trimTrailingZeroesHelper_zero) auto
  also have "?cur - 1 = int (length ip + length fp + j)"
    by simp
  also have "trimTrailingZeroesHelper buffer pos (int (length ip + length fp + j)) exppos
               (int (length ip)) (Some ?cur)
          = trimTrailingZeroesHelper buffer pos (int (length ip + length fp)) exppos
               (int (length ip))
               (if j = 0 then Some ?cur else Some (int (length ip + length fp + 1)))"
    using Suc.prems by (intro Suc.IH) simp
  finally show ?case
    by (cases j) simp_all
qed


lemma trimTrailingZeroes_shape:
  assumes ip: "ip \<noteq> []" "CHR ''.'' \<notin> set ip" "DC_EXP \<notin> set ip" "NUL \<notin> set ip"
    and fp: "fp = [] \<or> last fp \<noteq> CHR ''0''" "DC_EXP \<notin> set fp" "NUL \<notin> set fp"
    and ex: "ex = [] \<or> hd ex = DC_EXP" "NUL \<notin> set ex"
    and t: "t = ip @ CHR ''.'' # fp @ replicate n CHR ''0'' @ ex"
  shows "c_string (trimTrailingZeroes (t @ [NUL]) (int (length t))) = trimmed ip fp n ex"
proof -
  define buffer where "buffer = t @ [NUL]"
  define pos where "pos = int (length t)"
  define d where "d = int (length ip)"
  define pre where "pre = ip @ CHR ''.'' # fp @ replicate n CHR ''0''"
  define exppos where "exppos = (if ex = [] then None else Some (int (length pre)))"
  define cur0 where "cur0 = int (length ip + length fp)"
  have len_pre: "length pre = length ip + length fp + n + 1"
    by (simp add: pre_def)
  have nul_pre: "NUL \<notin> set pre" and e_pre: "DC_EXP \<notin> set pre"
    using ip fp by (auto simp: pre_def NUL_def DC_EXP_def)
  have nul: "NUL \<notin> set t"
    using nul_pre ex t by (simp add: pre_def)
  have buffer: "buffer = pre @ ex @ [NUL]"
    using t by (simp add: buffer_def pre_def)
  have buffer': "buffer = ip @ CHR ''.'' # fp @ replicate n CHR ''0'' @ ex @ [NUL]"
    using t by (simp add: buffer_def)
  have pos: "pos = int (length pre + length ex)"
    using t by (simp add: pos_def pre_def)
  have decimal: "strchr buffer CHR ''.'' = Some d"
    unfolding buffer' d_def using ip by (intro strchr_found) (simp_all add: NUL_def)
  have e: "strchr buffer DC_EXP = exppos"
  proof (cases ex)
    case Nil
    then show ?thesis
      using strchr_absent [OF e_pre nul_pre, of "[]"] by (simp add: exppos_def buffer)
  next
    case (Cons c ex')
    then have "buffer = pre @ DC_EXP # ex' @ [NUL]"
      using buffer ex by simp
    then show ?thesis
      using strchr_found [OF e_pre nul_pre, of "ex' @ [NUL]"] Cons
      by (simp add: exppos_def DC_EXP_def NUL_def)
  qed
  have far: "exppos = None \<or> int (length ip + length fp + n) < the exppos"
    by (simp add: exppos_def len_pre)
  have np: "nat pos = length t"
    by (simp add: pos_def)
  have "buffer ! nat pos = NUL"
    unfolding np buffer_def by simp
  moreover have "0 < pos"
    using t by (simp add: pos_def)
  ultimately have at_pos: "buffer ! nat pos = NUL" "0 < pos"
    by simp_all
  have in_t: "buffer ! k \<noteq> NUL" if "k < length t" for k
    using that nul by (metis buffer_def nth_append nth_mem)
  have start: "trimTrailingZeroesHelper buffer pos pos exppos d None
      = trimTrailingZeroesHelper buffer pos (int (length ip + length fp + n)) exppos d None"
  proof (cases ex)
    case Nil
    then have "pos - 1 = int (length ip + length fp + n)"
      by (simp add: pos len_pre)
    then show ?thesis
      using trimTrailingZeroesHelper_terminator [OF at_pos(2,1), of pos exppos d None] by simp
  next
    case (Cons c ex')
    have "nat (pos - 1) < length t"
      using at_pos(2) unfolding pos_def by linarith
    then have "buffer ! nat (pos - 1) \<noteq> NUL"
      by (rule in_t)
    moreover have "0 < pos - 1" "int (length pre) \<le> pos - 1" "exppos = Some (int (length pre))"
      using Cons by (simp_all add: pos len_pre exppos_def)
    ultimately have "trimTrailingZeroesHelper buffer pos (pos - 1) exppos d None
        = trimTrailingZeroesHelper buffer pos (int (length pre) - 1) exppos d None"
      by (intro trimTrailingZeroesHelper_exponent) simp_all
    moreover have "int (length pre) - 1 = int (length ip + length fp + n)"
      by (simp add: len_pre)
    ultimately show ?thesis
      using trimTrailingZeroesHelper_terminator [OF at_pos(2,1), of pos exppos d None] by simp
  qed
  have walk: "trimTrailingZeroesHelper buffer pos (int (length ip + length fp + n)) exppos d None
      = trimTrailingZeroesHelper buffer pos cur0 exppos d
          (if n = 0 then None else Some (cur0 + 1))"
    unfolding d_def cur0_def
    using zero_walk [OF buffer' far ip(1) order_refl, of pos None]
    by (cases "n = 0") (simp_all add: ac_simps)
  have cur0: "0 < cur0" "buffer ! nat cur0 \<noteq> NUL"
    "\<not> (d < cur0 \<and> buffer ! nat cur0 = CHR ''0'')"
    "exppos = None \<or> cur0 < the exppos"
  proof -
    have "0 < length ip" using ip(1) by simp
    then show "0 < cur0" unfolding cur0_def by linarith
    show "buffer ! nat cur0 \<noteq> NUL"
      by (intro in_t) (simp add: cur0_def t)
    show "exppos = None \<or> cur0 < the exppos"
      using far by (auto simp: cur0_def)
    show "\<not> (d < cur0 \<and> buffer ! nat cur0 = CHR ''0'')"
    proof (cases "fp = []")
      case True
      then show ?thesis by (simp add: cur0_def d_def)
    next
      case False
      then have "fp = butlast fp @ [last fp]" by simp
      then have "buffer = (ip @ CHR ''.'' # butlast fp) @ last fp # replicate n CHR ''0'' @ ex @ [NUL]"
        using buffer' by (metis append.assoc append_Cons append_Nil)
      moreover have "nat cur0 = length (ip @ CHR ''.'' # butlast fp)"
        using False by (simp add: cur0_def)
      ultimately have "buffer ! nat cur0 = last fp"
        by (simp only: nth_append_length)
      then show ?thesis
        using fp(1) False by simp
    qed
  qed
  have final: "trimTrailingZeroesHelper buffer pos cur0 exppos d zp
      = (0, case zp of
              None \<Rightarrow> buffer
            | Some z \<Rightarrow>
                (case exppos of
                   None \<Rightarrow> buffer[nat (if z - 1 = d then d else z) := NUL]
                 | Some e \<Rightarrow>
                     memmove buffer (nat (if z - 1 = d then d else z)) (nat e)
                       (nat (pos - e + 1))))" for zp
    by (rule trimTrailingZeroesHelper_other [OF cur0])
  have result: "trimTrailingZeroes buffer pos
      = (if n = 0 then buffer
         else case exppos of
                None \<Rightarrow> buffer[nat (if cur0 = d then d else cur0 + 1) := NUL]
              | Some e \<Rightarrow>
                  memmove buffer (nat (if cur0 = d then d else cur0 + 1)) (nat e)
                    (nat (pos - e + 1)))"
    using decimal e start walk final by (simp add: trimTrailingZeroes_def)
  show ?thesis
  proof (cases "n = 0")
    case True
    then show ?thesis
      using result nul c_string_append [of t "[]"] t
      by (simp add: trimmed_def buffer_def pos_def)
  next
    case n: False
    define keep where "keep = (if fp = [] then ip else ip @ CHR ''.'' # fp)"
    have dest: "nat (if cur0 = d then d else cur0 + 1) = length keep"
      by (auto simp: cur0_def d_def keep_def)
    have nul_keep: "NUL \<notin> set keep"
      using ip fp by (auto simp: keep_def NUL_def)
    obtain zs where zs: "buffer = keep @ zs @ ex @ [NUL]" "zs \<noteq> []"
      "length keep + length zs = length pre"
    proof (cases "fp = []")
      case True
      show ?thesis
        by (rule that [of "CHR ''.'' # replicate n CHR ''0''"])
           (use True in \<open>simp_all add: keep_def buffer' len_pre\<close>)
    next
      case False
      show ?thesis
        by (rule that [of "replicate n CHR ''0''"])
           (use False n in \<open>simp_all add: keep_def buffer' len_pre\<close>)
    qed
    show ?thesis
    proof (cases ex)
      case Nil
      then have "trimTrailingZeroes buffer pos = buffer[length keep := NUL]"
        using result n dest by (simp add: exppos_def)
      also have "\<dots> = keep @ NUL # tl zs @ [NUL]"
        using zs Nil by (cases zs) (simp_all add: list_update_append)
      finally show ?thesis
        using nul_keep Nil n c_string_append [of keep]
        by (simp add: trimmed_def keep_def buffer_def pos_def)
    next
      case (Cons c ex')
      then have "exppos = Some (int (length pre))"
        by (simp add: exppos_def)
      then have "trimTrailingZeroes buffer pos
          = memmove buffer (nat (if cur0 = d then d else cur0 + 1)) (nat (int (length pre)))
              (nat (pos - int (length pre) + 1))"
        using result n by simp
      moreover have "nat (pos - int (length pre) + 1) = length ex + 1"
        unfolding pos by linarith
      ultimately have "trimTrailingZeroes buffer pos
          = memmove buffer (length keep) (length pre) (length ex + 1)"
        by (simp only: dest nat_int)
      moreover have "take (length keep) buffer = keep"
        using zs(1) by simp
      moreover have "drop (length pre) buffer = ex @ [NUL]"
        using buffer by simp
      ultimately have "trimTrailingZeroes buffer pos
          = keep @ (ex @ [NUL]) @ drop (length keep + (length ex + 1)) buffer"
        by (simp add: memmove_def)
      then have "c_string (trimTrailingZeroes buffer pos) = keep @ ex"
        using nul_keep ex(2) c_string_append [of "keep @ ex"] by simp
      then show ?thesis
        using n by (simp add: trimmed_def keep_def buffer_def pos_def)
    qed
  qed
qed

lemma special_inf: "IsSpecial infinity" "IsInfinite infinity" "\<not> d_lt infinity 0"
  "IsSpecial (d_neg infinity)" "IsInfinite (d_neg infinity)" "d_lt (d_neg infinity) 0"
  by (simp_all add: IsSpecial_def IsInfinite_def double_defs)

lemma DoubleConvert_special:
  "DoubleConvert infinity dc = ''inf''"
  "DoubleConvert (d_neg infinity) dc = ''-inf''"
  "isnan v \<Longrightarrow> DoubleConvert v dc = ''nan''"
  "isinf v \<Longrightarrow> DoubleConvert v dc = (if d_lt v 0 then ''-inf'' else ''inf'')"
proof -
  have c: "c_string (Finalize ''inf'') = ''inf''" "c_string (Finalize ''-inf'') = ''-inf''"
    "c_string (Finalize ''nan'') = ''nan''"
    by (simp_all add: Finalize_def c_string_def NUL_def)
  show "DoubleConvert infinity dc = ''inf''"
    using special_inf c by (simp add: DoubleConvert_def HandleSpecialValues_def DC_INF_def)
  show "DoubleConvert (d_neg infinity) dc = ''-inf''"
    using special_inf c by (simp add: DoubleConvert_def HandleSpecialValues_def DC_INF_def)
  show "DoubleConvert v dc = ''nan''" if "isnan v"
    using that c
    by (simp add: DoubleConvert_def HandleSpecialValues_def DC_NAN_def IsSpecial_def
        IsInfinite_def IsNan_def isnan_def)
  show "DoubleConvert v dc = (if d_lt v 0 then ''-inf'' else ''inf'')" if "isinf v"
    using that c
    by (simp add: DoubleConvert_def HandleSpecialValues_def DC_INF_def IsSpecial_def
        IsInfinite_def isinf_def)
qed

lemma DoubleConvert_finite:
  assumes "isfinite v"
  shows "DoubleConvert v dc
    = c_string (trimTrailingZeroes (dc v DC_PRECISION_REQUESTED @ [NUL]) (int (length (dc v DC_PRECISION_REQUESTED))))"
  using assms
  by (simp add: DoubleConvert_def IsSpecial_def isfinite_def Finalize_def Let_def)

lemma DoubleConvert_decimal:
  assumes "isfinite v" "decimal_text ip fp ex"
    "dc v DC_PRECISION_REQUESTED = ip @ CHR ''.'' # fp @ replicate n CHR ''0'' @ ex"
  shows "DoubleConvert v dc = trimmed ip fp n ex"
  using assms(2) trimTrailingZeroes_shape [of ip fp ex "dc v DC_PRECISION_REQUESTED" n] assms(3)
  by (simp add: DoubleConvert_finite [OF assms(1)] decimal_text_def)

lemma DoubleConvert_no_point:
  assumes "isfinite v" "CHR ''.'' \<notin> set (dc v DC_PRECISION_REQUESTED)" "NUL \<notin> set (dc v DC_PRECISION_REQUESTED)"
  shows "DoubleConvert v dc = dc v DC_PRECISION_REQUESTED"
proof -
  have "strchr (dc v DC_PRECISION_REQUESTED @ [NUL]) CHR ''.'' = None"
    using assms(2,3) by (intro strchr_absent)
  then show ?thesis
    using assms(3) c_string_append [of "dc v DC_PRECISION_REQUESTED" "[]"]
    by (simp add: DoubleConvert_finite [OF assms(1)] trimTrailingZeroes_def)
qed

lemma trim_example:
  "c_string (trimTrailingZeroes (Finalize ''1.500000e+10'') 12) = ''1.5e+10''"
  using trimTrailingZeroes_shape [of "''1''" "''5''" "''e+10''" "''1.500000e+10''" 5]
  by (simp add: trimmed_def DC_EXP_def NUL_def Finalize_def eval_nat_numeral)

lemma finite_examples: "isfinite (lit 1 1)" "isfinite (lit 1 10)"
  by (simp_all add: double_defs)

lemma DoubleConvert_examples:
  "dc (lit 1 1) DC_PRECISION_REQUESTED = ''1.00000'' \<Longrightarrow> DoubleConvert (lit 1 1) dc = ''1''"
  "dc (lit 1 10) DC_PRECISION_REQUESTED = ''0.100000'' \<Longrightarrow> DoubleConvert (lit 1 10) dc = ''0.1''"
  using DoubleConvert_decimal [OF finite_examples(1), of "''1''" "[]" "[]" dc 5]
    DoubleConvert_decimal [OF finite_examples(2), of "''0''" "''1''" "[]" dc 5]
  by (simp_all add: decimal_text_def trimmed_def DC_EXP_def NUL_def eval_nat_numeral)


text \<open>
  C4. A Number is formatted by \<^verbatim>\<open>DoubleConvert\<close>. Whatever the converter writes, the
  infinities are \<open>inf\<close> and \<open>-inf\<close> and a NaN is \<open>nan\<close>: the converter is not asked. A
  finite value is converted with a precision of 6 digits, and what the converter has
  written is trimmed: of a text with a decimal point the zeroes at the end of the
  fraction go, with the decimal point when nothing else is left of the fraction, and
  the exponent part follows immediately; a text without a decimal point stays as it
  is. So \<open>1.0\<close>, written \<open>1.00000\<close> by the converter, is \<open>1\<close>, and \<open>0.1\<close>, written
  \<open>0.100000\<close>, is \<open>0.1\<close>; the buffer \<open>1.500000e+10\<close> is trimmed to \<open>1.5e+10\<close>.
\<close>

theorem C4_toString_number:
  "DC_PRECISION_REQUESTED = 6
   \<and> DoubleConvert infinity dc = ''inf''
   \<and> DoubleConvert (d_neg infinity) dc = ''-inf''
   \<and> (isinf v \<longrightarrow> DoubleConvert v dc = (if d_lt v 0 then ''-inf'' else ''inf''))
   \<and> (isnan v \<longrightarrow> DoubleConvert v dc = ''nan'')
   \<and> (isfinite v \<and> decimal_text ip fp ex
        \<and> dc v DC_PRECISION_REQUESTED = ip @ CHR ''.'' # fp @ replicate n CHR ''0'' @ ex \<longrightarrow>
      DoubleConvert v dc = trimmed ip fp n ex)
   \<and> (isfinite v \<and> CHR ''.'' \<notin> set (dc v DC_PRECISION_REQUESTED)
        \<and> NUL \<notin> set (dc v DC_PRECISION_REQUESTED) \<longrightarrow>
      DoubleConvert v dc = dc v DC_PRECISION_REQUESTED)
   \<and> (dc (lit 1 1) DC_PRECISION_REQUESTED = ''1.00000'' \<longrightarrow> DoubleConvert (lit 1 1) dc = ''1'')
   \<and> (dc (lit 1 10) DC_PRECISION_REQUESTED = ''0.100000'' \<longrightarrow>
      DoubleConvert (lit 1 10) dc = ''0.1'')
   \<and> c_string (trimTrailingZeroes (Finalize ''1.500000e+10'') 12) = ''1.5e+10''"
proof -
  have "DC_PRECISION_REQUESTED = 6"
    by (simp add: DC_PRECISION_REQUESTED_def)
  then show ?thesis
    using DoubleConvert_special DoubleConvert_decimal DoubleConvert_no_point
      DoubleConvert_examples trim_example
    by blast
qed

theorem C4_toString_number_witness:
  "isfinite (lit 1 1) \<and> decimal_text ''1'' [] []
   \<and> DoubleConvert (lit 1 1) (\<lambda>v precision. ''1.00000'') = ''1''
   \<and> isfinite (lit 15000000000 1) \<and> decimal_text ''1'' ''5'' ''e+10''
   \<and> DoubleConvert (lit 15000000000 1) (\<lambda>v precision. ''1.50000e+10'') = ''1.5e+10''
   \<and> isnan quiet_NaN \<and> DoubleConvert quiet_NaN (\<lambda>v precision. []) = ''nan''"
proof -
  have f: "isfinite (lit 1 1)" "isfinite (lit 15000000000 1)" "isnan quiet_NaN"
    by (simp_all add: double_defs)
  have d: "decimal_text ''1'' [] []" "decimal_text ''1'' ''5'' ''e+10''"
    by (simp_all add: decimal_text_def DC_EXP_def NUL_def)
  have r: "replicate 5 CHR ''0'' = ''00000''" "replicate 4 CHR ''0'' = ''0000''"
    by (simp_all add: eval_nat_numeral)
  have "DoubleConvert (lit 1 1) (\<lambda>v precision. ''1.00000'') = trimmed ''1'' [] 5 []"
    using C4_toString_number [of "\<lambda>v precision. ''1.00000''" "lit 1 1" "''1''" "[]" "[]" 5]
      f(1) d(1)
    by (simp add: r)
  moreover have "DoubleConvert (lit 15000000000 1) (\<lambda>v precision. ''1.50000e+10'')
      = trimmed ''1'' ''5'' 4 ''e+10''"
    using C4_toString_number [of "\<lambda>v precision. ''1.50000e+10''" "lit 15000000000 1" "''1''"
        "''5''" "''e+10''" 4] f(2) d(2)
    by (simp add: r)
  moreover have "DoubleConvert quiet_NaN (\<lambda>v precision. []) = ''nan''"
    using C4_toString_number [of "\<lambda>v precision. []" quiet_NaN] f(3) by simp
  ultimately show ?thesis
    using f d by (simp add: trimmed_def)
qed

end
